theory Spec2Isabelle
  imports Main "HOL-Library.AList"
begin

section \<open>The command-line request builder of the cli package\<close>

text \<open>
  A shallow embedding of the parser of the cli package: \<^verbatim>\<open>Parse\<close>, \<^verbatim>\<open>parse\<close>,
  \<^verbatim>\<open>parseArgs\<close>, \<^verbatim>\<open>parseLongOpt\<close>, \<^verbatim>\<open>parseShortOpts\<close>, \<^verbatim>\<open>getArgDef\<close>,
  \<^verbatim>\<open>appendFile\<close> and their helpers. Go strings are byte sequences and are modelled as
  \<open>string\<close>; a Go \<^verbatim>\<open>error\<close> is a value of the datatype \<open>error\<close>; a function returning
  \<^verbatim>\<open>(x, error)\<close> returns \<open>error + 'a\<close> with \<open>Inl\<close> the error.
\<close>

subsection \<open>Data of the collaborating packages\<close>

text \<open>The argument-slot definition \<^verbatim>\<open>cmdkit.Argument\<close> (the description text left out).\<close>

datatype ArgumentType = ArgString | ArgFile

record Argument =
  arg_Name :: string
  arg_Type :: ArgumentType
  arg_Required :: bool
  arg_Variadic :: bool
  arg_SupportsStdin :: bool
  arg_Recursive :: bool

text \<open>\<^verbatim>\<open>cmds.EncodingType\<close>, the key type of a command's encoders, is a string type.\<close>

type_synonym EncodingType = string

text \<open>
  Modelled from the spec: the constants \<^verbatim>\<open>cmds.Text\<close> and \<^verbatim>\<open>cmds.JSON\<close> of the cmds package
  (their declarations are not among the sources), which name "the text encoding" and "the
  JSON encoding". They are untyped string constants: as a key of \<^verbatim>\<open>Encoders\<close> they are
  encoding types, and as an option value they are plain strings.
\<close>

definition Text :: string where
  "Text = ''text''"

definition JSON :: string where
  "JSON = ''json''"

text \<open>
  The command node \<^verbatim>\<open>cmds.Command\<close>, as far as the parser reads it: the children by name
  (a Go map; a name bound to a nil child is an absent name here), the argument slots, the
  external flag, and the encoding types for which \<^verbatim>\<open>Encoders\<close> holds a non-nil encoder.
\<close>

datatype command = Command
  (cmd_Subcommands: "(string \<times> command) list")
  (cmd_Arguments: "Argument list")
  (cmd_External: bool)
  (cmd_Encoders: "EncodingType list")

text \<open>
  Errors. The first seven are the errors the parser builds itself; \<open>ErrInvalid\<close> is what
  \<^verbatim>\<open>Stat\<close> answers on a nil file handle; \<open>Failure\<close> stands for an error made by a
  collaborator (an option's value parser, the option table, the operating system, the file
  library). \<open>Panic\<close> is not a Go error value: it marks a run-time panic (index out of range,
  nil dereference), which no caller here recovers from.
\<close>

datatype error =
    UnknownOption string
  | MultipleValues string
  | MissingArgument string
  | UnknownCommand "string list" command
  | ArgumentRequired string
  | DirNotSupported string string
  | NotRecursive string string
  | ErrInvalid
  | Failure string
  | Panic string

text \<open>
  Modelled from the spec: \<^verbatim>\<open>printSuggestions\<close> of the cli package, whose file is not among
  the sources. It always answers an error, the unrecognized-command condition "carrying the
  offending tokens and the root command tree".
\<close>

definition printSuggestions :: "string list \<Rightarrow> command \<Rightarrow> error" where
  "printSuggestions inputs root = UnknownCommand inputs root"

text \<open>Option values are Go \<^verbatim>\<open>interface{}\<close> values: a dynamic type with a value of it.\<close>

datatype val = BoolVal bool | StringVal string | IntVal int

text \<open>The kinds of option \<^verbatim>\<open>cmdkit\<close> knows; the parser only asks whether a kind is \<open>Bool\<close>.\<close>

datatype OptionType = Bool | Int | Uint | Int64 | Uint64 | Float | String | Strings

text \<open>
  The interface \<^verbatim>\<open>cmdkit.Option\<close>, one field for each method the parser calls:
  \<^verbatim>\<open>Name()\<close>, \<^verbatim>\<open>Names()\<close>, \<^verbatim>\<open>Type()\<close> and \<^verbatim>\<open>Parse(string)\<close>.
\<close>

record OptionDef =
  opt_Name :: string
  opt_Names :: "string list"
  opt_Type :: OptionType
  opt_Parse :: "string \<Rightarrow> error + val"

type_synonym OptDefs = "string \<rightharpoonup> OptionDef"

type_synonym OptMap = "string \<rightharpoonup> val"

text \<open>Files: what \<^verbatim>\<open>Stat\<close> and \<^verbatim>\<open>Lstat\<close> tell, an open file handle, a parsed URL.\<close>

record FileInfo =
  fi_IsDir :: bool
  fi_CharDevice :: bool

record File =
  file_Name :: string
  file_Stat :: "error + FileInfo"

record URL =
  url_Scheme :: string
  url_Host :: string

text \<open>
  The reader handed to the file library for standard input: the handle itself, or the
  \<^verbatim>\<open>messageReader\<close> that prints its message at the first read.
\<close>

datatype Reader = FileReader File | MessageReader File string

text \<open>File nodes, one constructor for each constructor function of the file library.\<close>

datatype Node =
    ReaderPathFile string Reader
  | WebFile URL
  | SerialFile string bool FileInfo

text \<open>
  \<^verbatim>\<open>cmds.Request\<close> without its context, which the parser stores and never reads. \<open>req_Files\<close>
  is the directory \<^verbatim>\<open>files.NewMapDirectory\<close> makes of the file map.
\<close>

record request =
  req_Root :: "command option"
  req_Command :: "command option"
  req_Path :: "string list"
  req_Arguments :: "string list"
  req_Options :: OptMap
  req_Files :: "(string \<times> Node) list option"

text \<open>
  The methods of the command tree and of the request that the parser calls and that are
  outside the sources: parameters of the model.
\<close>

record lib =
  GetOptions :: "command \<Rightarrow> string list \<Rightarrow> error + OptDefs"
  FillDefaults :: "request \<Rightarrow> request \<times> error option"
  SetOption :: "request \<Rightarrow> string \<Rightarrow> val \<Rightarrow> request"

text \<open>
  The operating system and the standard and file libraries, as the parser calls them:
  parameters of the model as well.
\<close>

record env =
  IsWindows :: bool
  Lstat :: "string \<Rightarrow> error + FileInfo"
  Getwd :: "error + string"
  EvalSymlinks :: "string \<Rightarrow> error + string"
  Clean :: "string \<Rightarrow> string"
  ToSlash :: "string \<Rightarrow> string"
  Base :: "string \<Rightarrow> string"
  url_Parse :: "string \<Rightarrow> error + URL"
  NewSerialFile :: "string \<Rightarrow> bool \<Rightarrow> FileInfo \<Rightarrow> error + Node"
  NewReaderPathFile :: "string \<Rightarrow> Reader \<Rightarrow> error + Node"

text \<open>
  Modelled from the spec: the option-name constants of the cmds package (its declarations
  are not among the sources): the runtime options "recursive", "dereference symlinks",
  "hidden" and "stdin name", and the encoding option.
\<close>

definition EncLong :: string where
  "EncLong = ''encoding''"

definition RecShort :: string where
  "RecShort = ''r''"

definition RecLong :: string where
  "RecLong = ''recursive''"

definition DerefLong :: string where
  "DerefLong = ''dereference-args''"

definition StdinName :: string where
  "StdinName = ''stdin-name''"

definition Hidden :: string where
  "Hidden = ''hidden''"

subsection \<open>Reading the request's options\<close>

definition isHidden :: "request \<Rightarrow> bool" where
  "isHidden req = (case req_Options req Hidden of Some (BoolVal h) \<Rightarrow> h | _ \<Rightarrow> False)"

definition isRecursive :: "request \<Rightarrow> bool" where
  "isRecursive req = (case req_Options req RecLong of Some (BoolVal rec) \<Rightarrow> rec | _ \<Rightarrow> False)"

definition stdinName :: "request \<Rightarrow> string" where
  "stdinName req = (case req_Options req StdinName of Some (StringVal name) \<Rightarrow> name | _ \<Rightarrow> [])"

subsection \<open>The cursor\<close>

record parseState =
  st_cmdline :: "string list"
  st_i :: nat

definition done_st :: "parseState \<Rightarrow> bool" where
  "done_st st = (st_i st \<ge> length (st_cmdline st))"

definition peek :: "parseState \<Rightarrow> error + string" where
  "peek st =
     (if st_i st < length (st_cmdline st) then Inr (st_cmdline st ! st_i st)
      else Inl (Panic ''index out of range''))"

subsection \<open>Options\<close>

text \<open>\<^verbatim>\<open>strings.SplitN(opt, "=", 2)\<close> cuts at the first \<^verbatim>\<open>=\<close>, if there is one.\<close>

definition splitkv :: "string \<Rightarrow> string \<times> string \<times> bool" where
  "splitkv opt =
     (if CHR ''='' \<in> set opt
      then (takeWhile (\<lambda>c. c \<noteq> CHR ''='') opt, drop 1 (dropWhile (\<lambda>c. c \<noteq> CHR ''='') opt), True)
      else (opt, [], False))"

definition parseOpt :: "string \<Rightarrow> string \<Rightarrow> OptDefs \<Rightarrow> error + val" where
  "parseOpt opt value opts =
     (case opts opt of
        None \<Rightarrow> Inl (UnknownOption opt)
      | Some optDef \<Rightarrow>
          (case opt_Parse optDef value of
             Inl err \<Rightarrow> Inl err
           | Inr v \<Rightarrow> Inr v))"

type_synonym kv = "string \<times> val"

text \<open>
  The scan of a combined short-option token \<open>k\<close> from its byte \<open>j\<close> on. The cursor moves
  only when a value-bearing flag takes the next word.
\<close>

function shortLoop ::
  "OptDefs \<Rightarrow> parseState \<Rightarrow> string \<Rightarrow> nat \<Rightarrow> kv list \<Rightarrow> error + parseState \<times> kv list" where
  "shortLoop optDefs st k j kvs =
     (if j < length k then
        (let flag = take 1 (drop j k) in
         case optDefs flag of
           None \<Rightarrow> Inl (UnknownOption k)
         | Some od \<Rightarrow>
             if opt_Type od = Bool then
               shortLoop optDefs st k (j + 1) (kvs @ [(flag, BoolVal True)])
             else if int j < int (length k) - 1 then
               (case parseOpt flag (drop (j + 1) k) optDefs of
                  Inl err \<Rightarrow> Inl err
                | Inr v \<Rightarrow> Inr (st, kvs @ [(flag, v)]))
             else if int (st_i st) < int (length (st_cmdline st)) - 1 then
               (let st' = st\<lparr>st_i := st_i st + 1\<rparr> in
                case parseOpt flag (st_cmdline st' ! st_i st') optDefs of
                  Inl err \<Rightarrow> Inl err
                | Inr v \<Rightarrow> Inr (st', kvs @ [(flag, v)]))
             else Inl (MissingArgument k))
      else Inr (st, kvs))"
  by pat_completeness auto
termination
  by (relation "measure (\<lambda>(optDefs, st, k, j, kvs). length k - j)") auto

declare shortLoop.simps [simp del]

definition parseShortOpts :: "parseState \<Rightarrow> OptDefs \<Rightarrow> error + parseState \<times> kv list" where
  "parseShortOpts st optDefs =
     (case peek st of
        Inl err \<Rightarrow> Inl err
      | Inr param \<Rightarrow>
          (case splitkv (drop 1 param) of
             (k, vStr, ok) \<Rightarrow>
               if ok then
                 (case parseOpt k vStr optDefs of
                    Inl err \<Rightarrow> Inl err
                  | Inr v \<Rightarrow> Inr (st, [(k, v)]))
               else shortLoop optDefs st k 0 []))"

definition parseLongOpt :: "parseState \<Rightarrow> OptDefs \<Rightarrow> error + parseState \<times> string \<times> val" where
  "parseLongOpt st optDefs =
     (case peek st of
        Inl err \<Rightarrow> Inl err
      | Inr param \<Rightarrow>
          (case splitkv (drop 2 param) of
             (k, v, ok) \<Rightarrow>
               if \<not> ok then
                 (case optDefs k of
                    None \<Rightarrow> Inl (UnknownOption k)
                  | Some optDef \<Rightarrow>
                      if opt_Type optDef = Bool then Inr (st, k, BoolVal True)
                      else if int (st_i st) < int (length (st_cmdline st)) - 1 then
                        (let st' = st\<lparr>st_i := st_i st + 1\<rparr> in
                         case peek st' of
                           Inl err \<Rightarrow> Inl err
                         | Inr v' \<Rightarrow>
                             (case parseOpt k v' optDefs of
                                Inl err \<Rightarrow> Inl err
                              | Inr optval \<Rightarrow> Inr (st', k, optval)))
                      else Inl (MissingArgument k))
               else
                 (case parseOpt k v optDefs of
                    Inl err \<Rightarrow> Inl err
                  | Inr optval \<Rightarrow> Inr (st, k, optval))))"

subsection \<open>The token loop of \<^verbatim>\<open>parse\<close>\<close>

text \<open>
  The variables of \<^verbatim>\<open>parse\<close> that its loop reads and writes: the accumulated path,
  positional tokens and option values, the command reached, the option table visible at
  the path, and the cursor.
\<close>

record parseVars =
  pv_path :: "string list"
  pv_args :: "string list"
  pv_opts :: OptMap
  pv_cmd :: command
  pv_optDefs :: OptDefs
  pv_st :: parseState

text \<open>How one turn of a loop ends: at the end of its body, or by \<^verbatim>\<open>break\<close>.\<close>

datatype 'a flow = Continue 'a | Break 'a

text \<open>
  The short-option branch merges the pairs of one token into the option values, each under
  the first name of its option.
\<close>

fun mergeShort :: "OptDefs \<Rightarrow> kv list \<Rightarrow> OptMap \<Rightarrow> error + OptMap" where
  "mergeShort optDefs [] opts = Inr opts"
| "mergeShort optDefs ((key, value) # kvs) opts =
     (case optDefs key of
        None \<Rightarrow> Inl (Panic ''nil dereference'')
      | Some od \<Rightarrow>
          (case opt_Names od of
             [] \<Rightarrow> Inl (Panic ''index out of range'')
           | key' # _ \<Rightarrow>
               if opts key' \<noteq> None then Inl (MultipleValues key')
               else mergeShort optDefs kvs (opts(key' \<mapsto> value))))"

text \<open>The body of the loop, up to the \<^verbatim>\<open>st.i++\<close> that ends a turn.\<close>

definition parseStep :: "lib \<Rightarrow> command \<Rightarrow> parseVars \<Rightarrow> error + parseVars flow" where
  "parseStep l root v =
     (case peek (pv_st v) of
        Inl err \<Rightarrow> Inl err
      | Inr param \<Rightarrow>
          if param = ''--'' then
            Inr (Break (v\<lparr>pv_args := pv_args v @ drop (st_i (pv_st v) + 1) (st_cmdline (pv_st v))\<rparr>))
          else if take 2 param = ''--'' then
            (case parseLongOpt (pv_st v) (pv_optDefs v) of
               Inl err \<Rightarrow> Inl err
             | Inr (st', k, value) \<Rightarrow>
                 if pv_opts v k \<noteq> None then Inl (MultipleValues k)
                 else
                   (case pv_optDefs v k of
                      None \<Rightarrow> Inl (Panic ''nil dereference'')
                    | Some od \<Rightarrow>
                        Inr (Continue (v\<lparr>pv_opts := (pv_opts v)(opt_Name od \<mapsto> value), pv_st := st'\<rparr>))))
          else if take 1 param = ''-'' \<and> param \<noteq> ''-'' then
            (case parseShortOpts (pv_st v) (pv_optDefs v) of
               Inl err \<Rightarrow> Inl err
             | Inr (st', kvs) \<Rightarrow>
                 (case mergeShort (pv_optDefs v) kvs (pv_opts v) of
                    Inl err \<Rightarrow> Inl err
                  | Inr opts' \<Rightarrow> Inr (Continue (v\<lparr>pv_opts := opts', pv_st := st'\<rparr>))))
          else
            (case map_of (cmd_Subcommands (pv_cmd v)) param of
               Some sub \<Rightarrow>
                 (let path' = pv_path v @ [param] in
                  case GetOptions l root path' of
                    Inl err \<Rightarrow> Inl err
                  | Inr optDefs' \<Rightarrow>
                      if cmd_External sub then
                        Inr (Break (v\<lparr>pv_cmd := sub, pv_path := path', pv_optDefs := optDefs',
                          pv_args := pv_args v @ drop (st_i (pv_st v) + 1) (st_cmdline (pv_st v))\<rparr>))
                      else Inr (Continue (v\<lparr>pv_cmd := sub, pv_path := path', pv_optDefs := optDefs'\<rparr>)))
             | None \<Rightarrow>
                 (let args' = pv_args v @ [param] in
                  if length (pv_path v) = 0 then Inl (printSuggestions args' root)
                  else Inr (Continue (v\<lparr>pv_args := args'\<rparr>)))))"

text \<open>
  A turn that ends normally leaves the cursor on a token of the command line, at or after
  the one it started on: the loop terminates.
\<close>

lemma shortLoop_cursor:
  "shortLoop optDefs st k j kvs = Inr (st', kvs') \<Longrightarrow>
     st_cmdline st' = st_cmdline st \<and> st_i st \<le> st_i st' \<and>
     (st_i st < length (st_cmdline st) \<longrightarrow> st_i st' < length (st_cmdline st))"
proof (induction optDefs st k j kvs rule: shortLoop.induct)
  case (1 optDefs st k j kvs)
  show ?case
  proof (cases "j < length k")
    case False
    with "1.prems" show ?thesis by (simp add: shortLoop.simps [of _ _ k j])
  next
    case True
    show ?thesis
    proof (cases "optDefs (take 1 (drop j k))")
      case None
      with True "1.prems" show ?thesis by (simp add: shortLoop.simps [of _ _ k j])
    next
      case (Some od)
      show ?thesis
      proof (cases "opt_Type od = Bool")
        case True
        with \<open>j < length k\<close> Some "1.prems" "1.IH" [OF \<open>j < length k\<close> refl Some True]
        show ?thesis by (simp add: shortLoop.simps [of _ _ k j])
      next
        case False
        with \<open>j < length k\<close> Some "1.prems" show ?thesis
          by (auto simp: shortLoop.simps [of _ _ k j] Let_def split: if_splits sum.splits)
      qed
    qed
  qed
qed

lemma parseShortOpts_cursor:
  "parseShortOpts st optDefs = Inr (st', kvs) \<Longrightarrow>
     st_cmdline st' = st_cmdline st \<and> st_i st \<le> st_i st' \<and> st_i st' < length (st_cmdline st)"
proof -
  assume r: "parseShortOpts st optDefs = Inr (st', kvs)"
  then have inside: "st_i st < length (st_cmdline st)"
    by (simp add: parseShortOpts_def peek_def split: if_splits)
  obtain k vStr ok where s: "splitkv (drop 1 (st_cmdline st ! st_i st)) = (k, vStr, ok)"
    by (cases "splitkv (drop 1 (st_cmdline st ! st_i st))") auto
  show ?thesis
  proof (cases ok)
    case True
    with r inside s show ?thesis
      by (auto simp: parseShortOpts_def peek_def split: sum.splits)
  next
    case False
    with r inside s have "shortLoop optDefs st k 0 [] = Inr (st', kvs)"
      by (simp add: parseShortOpts_def peek_def)
    from shortLoop_cursor [OF this] inside show ?thesis
      by simp
  qed
qed

lemma parseLongOpt_cursor:
  "parseLongOpt st optDefs = Inr (st', k, value) \<Longrightarrow>
     st_cmdline st' = st_cmdline st \<and> st_i st \<le> st_i st' \<and> st_i st' < length (st_cmdline st)"
  unfolding parseLongOpt_def peek_def
  by (auto simp: Let_def split: if_splits sum.splits prod.splits option.splits)

lemma parseStep_cursor:
  "parseStep l root v = Inr (Continue v') \<Longrightarrow>
     st_cmdline (pv_st v') = st_cmdline (pv_st v) \<and> st_i (pv_st v) \<le> st_i (pv_st v') \<and>
     st_i (pv_st v') < length (st_cmdline (pv_st v))"
  unfolding parseStep_def
  by (auto simp: Let_def peek_def split: if_splits sum.splits prod.splits option.splits
      dest: parseLongOpt_cursor parseShortOpts_cursor)

function parseLoop :: "lib \<Rightarrow> command \<Rightarrow> parseVars \<Rightarrow> error + parseVars" where
  "parseLoop l root v =
     (if \<not> done_st (pv_st v) then
        (case parseStep l root v of
           Inl err \<Rightarrow> Inl err
         | Inr (Break v') \<Rightarrow> Inr v'
         | Inr (Continue v') \<Rightarrow> parseLoop l root (v'\<lparr>pv_st := (pv_st v')\<lparr>st_i := st_i (pv_st v') + 1\<rparr>\<rparr>))
      else Inr v)"
  by pat_completeness auto
termination
proof (relation "measure (\<lambda>(l, root, v). length (st_cmdline (pv_st v)) - st_i (pv_st v))")
  show "wf (measure (\<lambda>(l, root, v). length (st_cmdline (pv_st v)) - st_i (pv_st v)))"
    by simp
next
  fix l :: lib and root :: command and v :: parseVars and x and v' :: parseVars
  assume "\<not> done_st (pv_st v)" and "parseStep l root v = Inr x" and "x = Continue v'"
  then have "parseStep l root v = Inr (Continue v')"
    by simp
  from parseStep_cursor [OF this]
  show "((l, root, v'\<lparr>pv_st := (pv_st v')\<lparr>st_i := st_i (pv_st v') + 1\<rparr>\<rparr>), (l, root, v))
          \<in> measure (\<lambda>(l, root, v). length (st_cmdline (pv_st v)) - st_i (pv_st v))"
    by auto
qed

declare parseLoop.simps [simp del]

text \<open>The variables as \<^verbatim>\<open>parse\<close> sets them up before its loop.\<close>

definition parseInit :: "string list \<Rightarrow> command \<Rightarrow> OptDefs \<Rightarrow> parseVars" where
  "parseInit cmdline root optDefs0 =
     \<lparr>pv_path = [], pv_args = [], pv_opts = Map.empty, pv_cmd = root, pv_optDefs = optDefs0,
      pv_st = \<lparr>st_cmdline = cmdline, st_i = 0\<rparr>\<rparr>"

text \<open>
  \<^verbatim>\<open>parse\<close>. It writes to the request only after its loop, so an error leaves the request
  as it was.
\<close>

definition parse :: "lib \<Rightarrow> request \<Rightarrow> string list \<Rightarrow> command \<Rightarrow> error + request" where
  "parse l req cmdline root =
     (case GetOptions l root [] of
        Inl err \<Rightarrow> Inl err
      | Inr optDefs0 \<Rightarrow>
          (case parseLoop l root (parseInit cmdline root optDefs0) of
             Inl err \<Rightarrow> Inl err
           | Inr v \<Rightarrow>
               Inr (req\<lparr>req_Root := Some root, req_Command := Some (pv_cmd v), req_Path := pv_path v,
                 req_Arguments := pv_args v, req_Options := pv_opts v\<rparr>)))"

subsection \<open>Files\<close>

text \<open>\<^verbatim>\<open>isURL\<close>: a URL for valid http and https URLs with a host, otherwise nil.\<close>

definition isURL :: "env \<Rightarrow> string \<Rightarrow> URL option" where
  "isURL e fpath =
     (case url_Parse e fpath of
        Inl err \<Rightarrow> None
      | Inr u \<Rightarrow>
          if url_Host u = [] then None
          else if url_Scheme u = ''http'' \<or> url_Scheme u = ''https'' then Some u
          else None)"

text \<open>\<^verbatim>\<open>Stat\<close> on a nil handle answers \<^verbatim>\<open>ErrInvalid\<close>.\<close>

definition isTty :: "File option \<Rightarrow> error + bool" where
  "isTty f =
     (case f of
        None \<Rightarrow> Inl ErrInvalid
      | Some f' \<Rightarrow>
          (case file_Stat f' of
             Inl err \<Rightarrow> Inl err
           | Inr fInfo \<Rightarrow> Inr (fi_CharDevice fInfo)))"

text \<open>The notice \<^verbatim>\<open>fmt.Sprintf(msgStdinInfo, name)\<close>; \<^verbatim>\<open>init\<close> picks the key by platform.\<close>

definition msgStdinInfo :: "env \<Rightarrow> string \<Rightarrow> string" where
  "msgStdinInfo e name =
     ''ipfs: Reading from '' @ name @
       (if IsWindows e then ''; send Ctrl-z to stop.'' else ''; send Ctrl-d to stop.'')"

definition maybeWrapStdin :: "env \<Rightarrow> File option \<Rightarrow> error + Reader" where
  "maybeWrapStdin e f =
     (case isTty f of
        Inl err \<Rightarrow> Inl err
      | Inr tty \<Rightarrow>
          (case f of
             None \<Rightarrow> Inl (Panic ''nil dereference'')
           | Some f' \<Rightarrow>
               if tty then Inr (MessageReader f' (msgStdinInfo e (file_Name f')))
               else Inr (FileReader f')))"

definition appendFile :: "env \<Rightarrow> string \<Rightarrow> Argument \<Rightarrow> bool \<Rightarrow> bool \<Rightarrow> error + Node" where
  "appendFile e fpath argDef recursive hidden =
     (case Lstat e fpath of
        Inl err \<Rightarrow> Inl err
      | Inr stat \<Rightarrow>
          if fi_IsDir stat \<and> \<not> arg_Recursive argDef then
            Inl (DirNotSupported fpath (arg_Name argDef))
          else if fi_IsDir stat \<and> \<not> recursive then
            Inl (NotRecursive fpath RecShort)
          else NewSerialFile e fpath hidden stat)"

subsection \<open>Distributing the positional tokens\<close>

definition getArgDef :: "nat \<Rightarrow> Argument list \<Rightarrow> Argument option" where
  "getArgDef n argDefs =
     (if n < length argDefs then Some (argDefs ! n)
      else if length argDefs > 0 then Some (argDefs ! (length argDefs - 1))
      else None)"

text \<open>
  The variables of \<^verbatim>\<open>parseArgs\<close> that its loop reads and writes. \<^verbatim>\<open>remRequired\<close> is a Go
  \<^verbatim>\<open>int\<close> and may fall below zero; the file map is kept as an association list with one
  entry for each key.
\<close>

record argsVars =
  av_iArgDef :: nat
  av_remRequired :: int
  av_inputs :: "string list"
  av_stringArgs :: "string list"
  av_fileArgs :: "(string \<times> Node) list"
  av_stdin :: "File option"

text \<open>
  The inner loop that skips optional slots when the remaining inputs are all needed by
  required ones. Nothing in the loop itself bounds it (past the last slot \<^verbatim>\<open>getArgDef\<close>
  keeps answering the last slot), so not returning is the value \<open>None\<close>. It answers the
  slot index and the slot chosen.
\<close>

partial_function (option) skipOptional ::
  "Argument list \<Rightarrow> int \<Rightarrow> int \<Rightarrow> nat \<Rightarrow> (error + nat \<times> Argument) option" where
  "skipOptional argDefs remInputs remRequired iArgDef =
     (case getArgDef iArgDef argDefs of
        None \<Rightarrow> Some (Inl (Panic ''nil dereference''))
      | Some argDef \<Rightarrow>
          if remInputs \<le> remRequired \<and> \<not> arg_Required argDef then
            skipOptional argDefs remInputs remRequired (iArgDef + 1)
          else Some (Inr (iArgDef, argDef)))"

text \<open>The case \<^verbatim>\<open>cmdkit.ArgString\<close> of the loop body.\<close>

definition fillString :: "env \<Rightarrow> Argument \<Rightarrow> bool \<Rightarrow> argsVars \<Rightarrow> error + argsVars" where
  "fillString e argDef fillingVariadic s =
     (case av_inputs s of
        input # rest \<Rightarrow>
          Inr (s\<lparr>av_stringArgs := av_stringArgs s @ [input], av_inputs := rest\<rparr>)
      | [] \<Rightarrow>
          (case av_stdin s of
             None \<Rightarrow> Inr s
           | Some f \<Rightarrow>
               if arg_SupportsStdin argDef \<and> \<not> fillingVariadic then
                 (case maybeWrapStdin e (Some f) of
                    Inl err \<Rightarrow> Inr s
                  | Inr r \<Rightarrow>
                      (case NewReaderPathFile e (file_Name f) r of
                         Inl err \<Rightarrow> Inl err
                       | Inr file \<Rightarrow>
                           Inr (s\<lparr>av_fileArgs := AList.update ''stdin'' file (av_fileArgs s),
                             av_stdin := None\<rparr>)))
               else Inr s))"

text \<open>The case \<^verbatim>\<open>cmdkit.ArgFile\<close> of the loop body.\<close>

definition fillFile ::
  "env \<Rightarrow> request \<Rightarrow> Argument \<Rightarrow> bool \<Rightarrow> argsVars \<Rightarrow> error + argsVars" where
  "fillFile e req argDef fillingVariadic s =
     (case av_inputs s of
        fpath # rest \<Rightarrow>
          if fpath = ''-'' then
            (case maybeWrapStdin e (av_stdin s) of
               Inl err \<Rightarrow> Inl err
             | Inr r \<Rightarrow>
                 (case av_stdin s of
                    None \<Rightarrow> Inl (Panic ''nil dereference'')
                  | Some f \<Rightarrow>
                      (case NewReaderPathFile e (file_Name f) r of
                         Inl err \<Rightarrow> Inl err
                       | Inr file \<Rightarrow>
                           Inr (s\<lparr>av_inputs := rest,
                             av_fileArgs := AList.update (stdinName req) file (av_fileArgs s)\<rparr>))))
          else
            (case isURL e fpath of
               Some u \<Rightarrow>
                 Inr (s\<lparr>av_inputs := rest,
                   av_fileArgs := AList.update fpath (WebFile u) (av_fileArgs s)\<rparr>)
             | None \<Rightarrow>
                 (let fpath1 = ToSlash e (Clean e fpath);
                      derefArgs = (case req_Options req DerefLong of
                                     Some (BoolVal b) \<Rightarrow> b | _ \<Rightarrow> False)
                  in case (if fpath1 = ''.'' then
                             (case Getwd e of
                                Inl err \<Rightarrow> Inl err
                              | Inr cwd \<Rightarrow> EvalSymlinks e (ToSlash e cwd))
                           else if derefArgs then EvalSymlinks e fpath1
                           else Inr fpath1) of
                       Inl err \<Rightarrow> Inl err
                     | Inr fpath2 \<Rightarrow>
                         (case appendFile e fpath2 argDef (isRecursive req) (isHidden req) of
                            Inl err \<Rightarrow> Inl err
                          | Inr nf \<Rightarrow>
                              Inr (s\<lparr>av_inputs := rest,
                                av_fileArgs :=
                                  AList.update (Base e fpath2) nf (av_fileArgs s)\<rparr>))))
      | [] \<Rightarrow>
          (case av_stdin s of
             None \<Rightarrow> Inr s
           | Some f \<Rightarrow>
               if arg_SupportsStdin argDef \<and> arg_Required argDef \<and> \<not> fillingVariadic then
                 (case maybeWrapStdin e (Some f) of
                    Inl err \<Rightarrow> Inl err
                  | Inr r \<Rightarrow>
                      (case NewReaderPathFile e (file_Name f) r of
                         Inl err \<Rightarrow> Inl err
                       | Inr file \<Rightarrow>
                           Inr (s\<lparr>av_fileArgs :=
                             AList.update (stdinName req) file (av_fileArgs s)\<rparr>)))
               else Inr s))"

text \<open>One turn of the loop over the inputs, with its closing \<^verbatim>\<open>iArgDef++\<close>.\<close>

definition argsBody ::
  "env \<Rightarrow> request \<Rightarrow> Argument list \<Rightarrow> nat \<Rightarrow> nat \<Rightarrow> argsVars \<Rightarrow> (error + argsVars) option" where
  "argsBody e req argDefs numInputs iInput s =
     (let remInputs = int numInputs - int iInput in
      case skipOptional argDefs remInputs (av_remRequired s) (av_iArgDef s) of
        None \<Rightarrow> None
      | Some (Inl err) \<Rightarrow> Some (Inl err)
      | Some (Inr (iArgDef, argDef)) \<Rightarrow>
          (let s1 = s\<lparr>av_iArgDef := iArgDef,
                 av_remRequired :=
                   (if arg_Required argDef then av_remRequired s - 1 else av_remRequired s)\<rparr>;
               fillingVariadic = (iArgDef + 1 > length argDefs)
           in case (case arg_Type argDef of
                      ArgString \<Rightarrow> fillString e argDef fillingVariadic s1
                    | ArgFile \<Rightarrow> fillFile e req argDef fillingVariadic s1) of
                Inl err \<Rightarrow> Some (Inl err)
              | Inr s2 \<Rightarrow> Some (Inr (s2\<lparr>av_iArgDef := av_iArgDef s2 + 1\<rparr>))))"

function argsLoop ::
  "env \<Rightarrow> request \<Rightarrow> Argument list \<Rightarrow> nat \<Rightarrow> nat \<Rightarrow> argsVars \<Rightarrow> (error + argsVars) option" where
  "argsLoop e req argDefs numInputs iInput s =
     (if iInput < numInputs then
        (case argsBody e req argDefs numInputs iInput s of
           None \<Rightarrow> None
         | Some (Inl err) \<Rightarrow> Some (Inl err)
         | Some (Inr s') \<Rightarrow> argsLoop e req argDefs numInputs (iInput + 1) s')
      else Some (Inr s))"
  by pat_completeness auto
termination
  by (relation "measure (\<lambda>(e, req, argDefs, numInputs, iInput, s). numInputs - iInput)") auto

declare argsLoop.simps [simp del]

text \<open>
  The end of \<^verbatim>\<open>parseArgs\<close>, after its loop: a last slot that standard input can still
  serve is passed over, the slots not reached are checked for a required one, and the
  request is written.
\<close>

definition finishArgs :: "request \<Rightarrow> Argument list \<Rightarrow> argsVars \<Rightarrow> error + request" where
  "finishArgs req argDefs s =
     (let iArgDef =
            (if int (av_iArgDef s) = int (length argDefs) - 1 \<and> av_stdin s \<noteq> None \<and>
                arg_SupportsStdin (argDefs ! av_iArgDef s)
             then av_iArgDef s + 1 else av_iArgDef s)
      in case find arg_Required (drop iArgDef argDefs) of
           Some argDef \<Rightarrow> Inl (ArgumentRequired (arg_Name argDef))
         | None \<Rightarrow>
             Inr (req\<lparr>req_Arguments := av_stringArgs s,
               req_Files :=
                 (if length (av_fileArgs s) > 0 then Some (av_fileArgs s) else req_Files req)\<rparr>))"

text \<open>The variables as \<^verbatim>\<open>parseArgs\<close> sets them up before its loop.\<close>

definition argsInit :: "Argument list \<Rightarrow> string list \<Rightarrow> File option \<Rightarrow> argsVars" where
  "argsInit argDefs inputs stdin =
     \<lparr>av_iArgDef = 0, av_remRequired = int (length (filter arg_Required argDefs)),
      av_inputs = inputs, av_stringArgs = [], av_fileArgs = [], av_stdin = stdin\<rparr>"

text \<open>
  \<^verbatim>\<open>parseArgs\<close>. It writes to the request only at its very end, so an error leaves the
  request as it was; \<open>None\<close> is a run that does not return.
\<close>

definition parseArgs :: "env \<Rightarrow> request \<Rightarrow> command \<Rightarrow> File option \<Rightarrow> (error + request) option" where
  "parseArgs e req root stdin =
     (case req_Command req of
        None \<Rightarrow> Some (Inl (Panic ''nil dereference''))
      | Some c \<Rightarrow>
          (let argDefs = cmd_Arguments c;
               inputs = req_Arguments req;
               numInputs =
                 (if length argDefs > 0 \<and> arg_SupportsStdin (argDefs ! (length argDefs - 1)) \<and>
                     stdin \<noteq> None
                  then length inputs + 1 else length inputs);
               notVariadic = (length argDefs = 0 \<or> \<not> arg_Variadic (argDefs ! (length argDefs - 1)))
           in if notVariadic \<and> length inputs > length argDefs then
                Some (Inl (printSuggestions inputs root))
              else
                (case argsLoop e req argDefs numInputs 0 (argsInit argDefs inputs stdin) of
                   None \<Rightarrow> None
                 | Some (Inl err) \<Rightarrow> Some (Inl err)
                 | Some (Inr s) \<Rightarrow> Some (finishArgs req argDefs s))))"

subsection \<open>\<^verbatim>\<open>Parse\<close>\<close>

text \<open>The request \<^verbatim>\<open>Parse\<close> starts from: every field but the context is zero.\<close>

definition emptyRequest :: request where
  "emptyRequest =
     \<lparr>req_Root = None, req_Command = None, req_Path = [], req_Arguments = [],
      req_Options = Map.empty, req_Files = None\<rparr>"

text \<open>
  The condition under which \<^verbatim>\<open>Parse\<close> sets its standard-input handle to nil before it
  distributes the arguments.
\<close>

definition dropsStdin :: "request \<Rightarrow> bool" where
  "dropsStdin req =
     (length (req_Path req) = 2 \<and> req_Path req ! 0 = ''bootstrap'' \<and>
      ((req_Path req ! 1 = ''add'' \<and> req_Options req ''default'' = Some (BoolVal True)) \<or>
       (req_Path req ! 1 = ''rm'' \<and> req_Options req ''all'' = Some (BoolVal True))))"

text \<open>
  \<^verbatim>\<open>Parse\<close> answers a request pointer and an error; \<open>None\<close> is a run that does not return
  (it panics or does not end). \<open>returnErr\<close> is its \<^verbatim>\<open>return req, err\<close>: a panic met on the
  way is not an error to return.
\<close>

definition returnErr :: "request \<Rightarrow> error \<Rightarrow> (request option \<times> error option) option" where
  "returnErr req err = (case err of Panic m \<Rightarrow> None | _ \<Rightarrow> Some (Some req, Some err))"

definition Parse ::
  "lib \<Rightarrow> env \<Rightarrow> string list \<Rightarrow> File option \<Rightarrow> command \<Rightarrow> (request option \<times> error option) option" where
  "Parse l e input stdin root =
     (let req0 = emptyRequest
      in case parse l req0 input root of
           Inl err \<Rightarrow> returnErr req0 err
         | Inr req1 \<Rightarrow>
             (case FillDefaults l req1 of
                (req2, Some err) \<Rightarrow> returnErr req2 err
              | (req2, None) \<Rightarrow>
                  (let stdin' = (if dropsStdin req2 then None else stdin)
                   in case parseArgs e req2 root stdin' of
                        None \<Rightarrow> None
                      | Some (Inl err) \<Rightarrow> returnErr req2 err
                      | Some (Inr req3) \<Rightarrow>
                          if req_Options req3 EncLong = Some (StringVal []) then
                            (case req_Command req3 of
                               None \<Rightarrow> None
                             | Some c \<Rightarrow>
                                 if Text \<in> set (cmd_Encoders c) then
                                   Some (Some (SetOption l req3 EncLong (StringVal Text)), None)
                                 else Some (Some (SetOption l req3 EncLong (StringVal JSON)), None))
                          else Some (Some req3, None))))"

section \<open>A small command tree for concrete runs\<close>

definition encOption :: OptionDef where
  "encOption =
     \<lparr>opt_Name = ''encoding'', opt_Names = [''encoding'', ''enc'', ''e''], opt_Type = String,
      opt_Parse = (\<lambda>s. Inr (StringVal s))\<rparr>"

definition boolParse :: "string \<Rightarrow> error + val" where
  "boolParse s =
     (if s = ''true'' then Inr (BoolVal True)
      else if s = ''false'' then Inr (BoolVal False)
      else Inl (Failure ''not a boolean''))"

definition quietOption :: OptionDef where
  "quietOption =
     \<lparr>opt_Name = ''quiet'', opt_Names = [''quiet'', ''q''], opt_Type = Bool,
      opt_Parse = boolParse\<rparr>"

definition defaultOption :: OptionDef where
  "defaultOption =
     \<lparr>opt_Name = ''default'', opt_Names = [''default''], opt_Type = Bool,
      opt_Parse = boolParse\<rparr>"

definition exOptDefs :: OptDefs where
  "exOptDefs =
     [''encoding'' \<mapsto> encOption, ''enc'' \<mapsto> encOption, ''e'' \<mapsto> encOption,
      ''quiet'' \<mapsto> quietOption, ''q'' \<mapsto> quietOption, ''default'' \<mapsto> defaultOption]"

definition exLib :: lib where
  "exLib =
     \<lparr>GetOptions = (\<lambda>root path. Inr exOptDefs),
      FillDefaults = (\<lambda>req. (req, None)),
      SetOption = (\<lambda>req name v. req\<lparr>req_Options := (req_Options req)(name \<mapsto> v)\<rparr>)\<rparr>"

definition peerArg :: Argument where
  "peerArg =
     \<lparr>arg_Name = ''peer'', arg_Type = ArgString, arg_Required = False, arg_Variadic = True,
      arg_SupportsStdin = True, arg_Recursive = False\<rparr>"

definition bootstrapAddCmd :: command where
  "bootstrapAddCmd = Command [] [peerArg] False [Text]"

definition bootstrapCmd :: command where
  "bootstrapCmd = Command [(''add'', bootstrapAddCmd)] [] False []"

definition exRoot :: command where
  "exRoot = Command [(''bootstrap'', bootstrapCmd)] [] False []"

definition exEnv :: env where
  "exEnv =
     \<lparr>IsWindows = False,
      Lstat = (\<lambda>p. if p = ''dir'' then Inr \<lparr>fi_IsDir = True, fi_CharDevice = False\<rparr>
                   else if p = ''file'' then Inr \<lparr>fi_IsDir = False, fi_CharDevice = False\<rparr>
                   else Inl (Failure ''no such file or directory'')),
      Getwd = Inr ''/home'',
      EvalSymlinks = (\<lambda>p. Inr p),
      Clean = (\<lambda>p. p),
      ToSlash = (\<lambda>p. p),
      Base = (\<lambda>p. p),
      url_Parse = (\<lambda>p. Inl (Failure ''not a URL'')),
      NewSerialFile = (\<lambda>p hidden stat. Inr (SerialFile p hidden stat)),
      NewReaderPathFile = (\<lambda>name r. Inr (ReaderPathFile name r))\<rparr>"

text \<open>The same environment with directories that cannot be read.\<close>

definition lockedEnv :: env where
  "lockedEnv =
     exEnv\<lparr>NewSerialFile :=
       (\<lambda>p hidden stat.
          if fi_IsDir stat then Inl (Failure ''permission denied'')
          else Inr (SerialFile p hidden stat))\<rparr>"

definition exStdin :: File where
  "exStdin = \<lparr>file_Name = ''/dev/stdin'', file_Stat = Inr \<lparr>fi_IsDir = False, fi_CharDevice = False\<rparr>\<rparr>"

definition firstArg :: Argument where
  "firstArg =
     \<lparr>arg_Name = ''first'', arg_Type = ArgString, arg_Required = True, arg_Variadic = False,
      arg_SupportsStdin = False, arg_Recursive = False\<rparr>"

definition restArg :: Argument where
  "restArg =
     \<lparr>arg_Name = ''rest'', arg_Type = ArgString, arg_Required = False, arg_Variadic = True,
      arg_SupportsStdin = False, arg_Recursive = False\<rparr>"

definition dataArg :: Argument where
  "dataArg =
     \<lparr>arg_Name = ''data'', arg_Type = ArgString, arg_Required = True, arg_Variadic = False,
      arg_SupportsStdin = True, arg_Recursive = False\<rparr>"

definition pathArg :: Argument where
  "pathArg =
     \<lparr>arg_Name = ''path'', arg_Type = ArgFile, arg_Required = True, arg_Variadic = True,
      arg_SupportsStdin = True, arg_Recursive = True\<rparr>"

lemma exLib_simps:
  "GetOptions exLib root path = Inr exOptDefs"
  "FillDefaults exLib req = (req, None)"
  "SetOption exLib req name v = req\<lparr>req_Options := (req_Options req)(name \<mapsto> v)\<rparr>"
  by (simp_all add: exLib_def)

section \<open>The claims\<close>

subsection \<open>An option set twice\<close>

text \<open>
  C1. Setting the same canonical option twice fails with the "multiple values for option"
  error, also through two different aliases given as two long-option tokens. The code does
  not do this: the long-option branch of \<^verbatim>\<open>parse\<close> looks the typed alias up in the option
  values before it replaces it by the canonical name, so \<^verbatim>\<open>--encoding=json --enc=text\<close>
  and \<^verbatim>\<open>--enc=json --enc=text\<close> are accepted and the second value silently replaces the
  first. The long-option branch rejects the pair only when the canonical name comes
  second; the short-option branch takes the canonical name first and rejects it.
\<close>

theorem parse_long_alias_overwrites:
  "parse exLib emptyRequest [''--encoding=json'', ''--enc=text''] exRoot =
     Inr \<lparr>req_Root = Some exRoot, req_Command = Some exRoot, req_Path = [], req_Arguments = [],
          req_Options = [''encoding'' \<mapsto> StringVal ''text''], req_Files = None\<rparr> \<and>
   parse exLib emptyRequest [''--enc=json'', ''--enc=text''] exRoot =
     Inr \<lparr>req_Root = Some exRoot, req_Command = Some exRoot, req_Path = [], req_Arguments = [],
          req_Options = [''encoding'' \<mapsto> StringVal ''text''], req_Files = None\<rparr> \<and>
   parse exLib emptyRequest [''--enc=json'', ''--encoding=text''] exRoot =
     Inl (MultipleValues ''encoding'') \<and>
   parse exLib emptyRequest [''-encoding=json'', ''-enc=text''] exRoot =
     Inl (MultipleValues ''encoding'')"
  by (simp add: parse_def parseInit_def emptyRequest_def exLib_def exOptDefs_def encOption_def
      parseLoop.simps parseStep_def done_st_def peek_def parseLongOpt_def parseShortOpts_def
      splitkv_def parseOpt_def)

subsection \<open>The terminator \<^verbatim>\<open>--\<close>\<close>

lemma peek_ext:
  "peek st = Inr p \<Longrightarrow> peek (st\<lparr>st_cmdline := st_cmdline st @ ys\<rparr>) = Inr p"
  by (auto simp: peek_def nth_append split: if_splits)

lemma st_update_swap:
  "st\<lparr>st_i := n, st_cmdline := xs\<rparr> = st\<lparr>st_cmdline := xs, st_i := n\<rparr>"
  by (cases st) simp

lemma shortLoop_ext:
  "shortLoop optDefs st k j kvs = Inr (st', kvs') \<Longrightarrow>
     shortLoop optDefs (st\<lparr>st_cmdline := st_cmdline st @ ys\<rparr>) k j kvs =
       Inr (st'\<lparr>st_cmdline := st_cmdline st' @ ys\<rparr>, kvs')"
proof (induction optDefs st k j kvs rule: shortLoop.induct)
  case (1 optDefs st k j kvs)
  show ?case
  proof (cases "j < length k")
    case False
    with "1.prems" show ?thesis
      by (simp add: shortLoop.simps [of _ _ k j])
  next
    case True
    show ?thesis
    proof (cases "optDefs (take 1 (drop j k))")
      case None
      with True "1.prems" show ?thesis
        by (simp add: shortLoop.simps [of _ _ k j])
    next
      case (Some od)
      show ?thesis
      proof (cases "opt_Type od = Bool")
        case True
        with \<open>j < length k\<close> Some "1.prems" "1.IH" [OF \<open>j < length k\<close> refl Some True]
        show ?thesis
          by (simp add: shortLoop.simps [of _ _ k j])
      next
        case False
        with \<open>j < length k\<close> Some "1.prems" show ?thesis
          by (auto simp: shortLoop.simps [of _ _ k j] Let_def nth_append
              split: if_splits sum.splits)
      qed
    qed
  qed
qed

lemma parseShortOpts_ext:
  assumes "parseShortOpts st optDefs = Inr (st', kvs)"
  shows "parseShortOpts (st\<lparr>st_cmdline := st_cmdline st @ ys\<rparr>) optDefs =
           Inr (st'\<lparr>st_cmdline := st_cmdline st' @ ys\<rparr>, kvs)"
proof -
  from assms obtain p where p: "peek st = Inr p"
    by (cases "peek st") (auto simp: parseShortOpts_def)
  obtain k vStr ok where s: "splitkv (drop 1 p) = (k, vStr, ok)"
    by (cases "splitkv (drop 1 p)") auto
  show ?thesis
  proof (cases ok)
    case True
    with assms p s show ?thesis
      by (auto simp: parseShortOpts_def peek_ext split: sum.splits)
  next
    case False
    with assms p s have "shortLoop optDefs st k 0 [] = Inr (st', kvs)"
      by (simp add: parseShortOpts_def)
    from shortLoop_ext [OF this] p s False show ?thesis
      by (simp add: parseShortOpts_def peek_ext)
  qed
qed


lemma parseLongOpt_ext:
  assumes "parseLongOpt st optDefs = Inr (st', k, value)"
  shows "parseLongOpt (st\<lparr>st_cmdline := st_cmdline st @ ys\<rparr>) optDefs =
           Inr (st'\<lparr>st_cmdline := st_cmdline st' @ ys\<rparr>, k, value)"
proof -
  from assms obtain p where p: "peek st = Inr p"
    by (cases "peek st") (auto simp: parseLongOpt_def)
  obtain k0 v ok where s: "splitkv (drop 2 p) = (k0, v, ok)"
    by (cases "splitkv (drop 2 p)") auto
  show ?thesis
  proof (cases ok)
    case True
    with assms p s show ?thesis
      by (auto simp: parseLongOpt_def peek_ext split: sum.splits)
  next
    case False
    note nok = this
    show ?thesis
    proof (cases "optDefs k0")
      case None
      with assms p s nok show ?thesis
        by (simp add: parseLongOpt_def)
    next
      case (Some od)
      show ?thesis
      proof (cases "opt_Type od = Bool")
        case True
        with assms p s nok Some show ?thesis
          by (auto simp: parseLongOpt_def peek_ext)
      next
        case False
        note nb = this
        show ?thesis
        proof (cases "int (st_i st) < int (length (st_cmdline st)) - 1")
          case False
          with assms p s nok Some nb show ?thesis
            by (simp add: parseLongOpt_def)
        next
          case True
          then have nxt: "peek (st\<lparr>st_i := st_i st + 1\<rparr>) = Inr (st_cmdline st ! (st_i st + 1))"
            by (simp add: peek_def)
          from True have nxt': "peek (st\<lparr>st_cmdline := st_cmdline st @ ys, st_i := st_i st + 1\<rparr>) =
              Inr (st_cmdline st ! (st_i st + 1))"
            by (simp add: peek_def nth_append)
          from True have lt: "int (st_i st) < int (length (st_cmdline st @ ys)) - 1"
            by simp
          from assms p s nok Some nb True nxt
          have r: "parseOpt k0 (st_cmdline st ! (st_i st + 1)) optDefs = Inr value \<and>
              st' = st\<lparr>st_i := st_i st + 1\<rparr> \<and> k = k0"
            by (auto simp: parseLongOpt_def Let_def split: sum.splits)
          from p have p': "peek (st\<lparr>st_cmdline := st_cmdline st @ ys\<rparr>) = Inr p"
            by (rule peek_ext)
          show ?thesis
            unfolding parseLongOpt_def
            using p' s nok Some nb lt nxt' r
            by (simp add: Let_def)
        qed
      qed
    qed
  qed
qed


lemma parseStep_ext:
  assumes "parseStep l root v = Inr (Continue v')"
  shows "parseStep l root (v\<lparr>pv_st := (pv_st v)\<lparr>st_cmdline := st_cmdline (pv_st v) @ ys\<rparr>\<rparr>) =
           Inr (Continue (v'\<lparr>pv_st := (pv_st v')\<lparr>st_cmdline := st_cmdline (pv_st v') @ ys\<rparr>\<rparr>))"
proof -
  from assms obtain p where p: "peek (pv_st v) = Inr p"
    by (cases "peek (pv_st v)") (auto simp: parseStep_def)
  note p' = peek_ext [OF p, of ys]
  consider (dd) "p = ''--''"
    | (long) "p \<noteq> ''--''" "take 2 p = ''--''"
    | (short) "p \<noteq> ''--''" "take 2 p \<noteq> ''--''" "take 1 p = ''-'' \<and> p \<noteq> ''-''"
    | (word) "p \<noteq> ''--''" "take 2 p \<noteq> ''--''" "\<not> (take 1 p = ''-'' \<and> p \<noteq> ''-'')"
    by blast
  then show ?thesis
  proof cases
    case dd
    with assms p show ?thesis
      by (simp add: parseStep_def)
  next
    case long
    with assms p obtain st' k va where
      r: "parseLongOpt (pv_st v) (pv_optDefs v) = Inr (st', k, va)"
      by (cases "parseLongOpt (pv_st v) (pv_optDefs v)") (auto simp: parseStep_def)
    from assms p long r show ?thesis
      using parseLongOpt_ext [OF r, of ys] p'
      by (auto simp: parseStep_def split: if_splits option.splits)
  next
    case short
    with assms p obtain st' kvs where
      r: "parseShortOpts (pv_st v) (pv_optDefs v) = Inr (st', kvs)"
      by (cases "parseShortOpts (pv_st v) (pv_optDefs v)") (auto simp: parseStep_def)
    from assms p short r show ?thesis
      using parseShortOpts_ext [OF r, of ys] p'
      by (auto simp: parseStep_def split: sum.splits)
  next
    case word
    with assms p p' show ?thesis
      by (auto simp: parseStep_def Let_def split: option.splits sum.splits if_splits)
  qed
qed

lemma parseStep_Break_st:
  "parseStep l root v = Inr (Break v') \<Longrightarrow> pv_st v' = pv_st v"
  unfolding parseStep_def
  by (auto simp: Let_def split: sum.splits if_splits option.splits prod.splits)


lemma parseLoop_cursor:
  "parseLoop l root v = Inr v' \<Longrightarrow> st_i (pv_st v) \<le> length (st_cmdline (pv_st v)) \<Longrightarrow>
     st_cmdline (pv_st v') = st_cmdline (pv_st v) \<and> st_i (pv_st v') \<le> length (st_cmdline (pv_st v))"
proof (induction l root v rule: parseLoop.induct)
  case (1 l root v)
  show ?case
  proof (cases "done_st (pv_st v)")
    case True
    with "1.prems" show ?thesis
      by (simp add: parseLoop.simps [of _ _ v])
  next
    case False
    show ?thesis
    proof (cases "parseStep l root v")
      case (Inl err)
      with False "1.prems" show ?thesis
        by (simp add: parseLoop.simps [of _ _ v])
    next
      case (Inr x)
      show ?thesis
      proof (cases x)
        case (Break v1)
        with False Inr "1.prems" have "v' = v1"
          by (simp add: parseLoop.simps [of _ _ v])
        with Break Inr parseStep_Break_st [of l root v v1] "1.prems" show ?thesis
          by simp
      next
        case (Continue v1)
        with Inr have step: "parseStep l root v = Inr (Continue v1)"
          by simp
        note c = parseStep_cursor [OF step]
        from False Inr Continue "1.prems"
        have run: "parseLoop l root (v1\<lparr>pv_st := (pv_st v1)\<lparr>st_i := st_i (pv_st v1) + 1\<rparr>\<rparr>) = Inr v'"
          by (simp add: parseLoop.simps [of _ _ v])
        from "1.IH" [OF False Inr Continue run] c show ?thesis
          by simp
      qed
    qed
  qed
qed

lemma parseLoop_ext:
  "parseLoop l root v = Inr v' \<Longrightarrow> done_st (pv_st v') \<Longrightarrow>
     parseLoop l root (v\<lparr>pv_st := (pv_st v)\<lparr>st_cmdline := st_cmdline (pv_st v) @ ys\<rparr>\<rparr>) =
     parseLoop l root (v'\<lparr>pv_st := (pv_st v')\<lparr>st_cmdline := st_cmdline (pv_st v') @ ys\<rparr>\<rparr>)"
proof (induction l root v rule: parseLoop.induct)
  case (1 l root v)
  show ?case
  proof (cases "done_st (pv_st v)")
    case True
    with "1.prems" show ?thesis
      by (simp add: parseLoop.simps [of _ _ v])
  next
    case False
    show ?thesis
    proof (cases "parseStep l root v")
      case (Inl err)
      with False "1.prems" show ?thesis
        by (simp add: parseLoop.simps [of _ _ v])
    next
      case (Inr x)
      show ?thesis
      proof (cases x)
        case (Break v1)
        with False Inr "1.prems" have "v' = v1"
          by (simp add: parseLoop.simps [of _ _ v])
        with Break Inr parseStep_Break_st [of l root v v1] "1.prems" False show ?thesis
          by simp
      next
        case (Continue v1)
        with Inr have step: "parseStep l root v = Inr (Continue v1)"
          by simp
        from False Inr Continue "1.prems"
        have run: "parseLoop l root (v1\<lparr>pv_st := (pv_st v1)\<lparr>st_i := st_i (pv_st v1) + 1\<rparr>\<rparr>) = Inr v'"
          by (simp add: parseLoop.simps [of _ _ v])
        from False have nd: "\<not> done_st (pv_st (v\<lparr>pv_st := (pv_st v)\<lparr>st_cmdline := st_cmdline (pv_st v) @ ys\<rparr>\<rparr>))"
          by (simp add: done_st_def)
        have "parseLoop l root (v\<lparr>pv_st := (pv_st v)\<lparr>st_cmdline := st_cmdline (pv_st v) @ ys\<rparr>\<rparr>) =
            parseLoop l root (v1\<lparr>pv_st := (pv_st v1)\<lparr>st_cmdline := st_cmdline (pv_st v1) @ ys,
              st_i := st_i (pv_st v1) + 1\<rparr>\<rparr>)"
          using nd parseStep_ext [OF step, of ys]
          by (subst parseLoop.simps) simp
        also have "\<dots> = parseLoop l root (v'\<lparr>pv_st := (pv_st v')\<lparr>st_cmdline := st_cmdline (pv_st v') @ ys\<rparr>\<rparr>)"
          using "1.IH" [OF False Inr Continue run "1.prems"(2)]
          by (simp add: st_update_swap)
        finally show ?thesis .
      qed
    qed
  qed
qed

lemma parseLoop_at_double_dash:
  assumes "st_cmdline (pv_st v) = pre @ ''--'' # post" and "st_i (pv_st v) = length pre"
  shows "parseLoop l root v = Inr (v\<lparr>pv_args := pv_args v @ post\<rparr>)"
  using assms
  by (subst parseLoop.simps) (simp add: done_st_def parseStep_def peek_def)

text \<open>
  C2. When the cursor reaches a token \<^verbatim>\<open>--\<close> (the tokens before it were parsed to their
  end: no error, no external command), every token after it is appended to the positional
  arguments as it is, whatever its shape, and nothing after it is parsed as an option or a
  subcommand: the request is the one the tokens before \<^verbatim>\<open>--\<close> give on their own, with the
  tokens after it added to its arguments.
\<close>

theorem parse_double_dash:
  assumes opts: "GetOptions l root [] = Inr optDefs0"
    and run: "parseLoop l root (parseInit pre root optDefs0) = Inr v"
    and ended: "done_st (pv_st v)"
  shows "parse l req pre root =
           Inr (req\<lparr>req_Root := Some root, req_Command := Some (pv_cmd v), req_Path := pv_path v,
             req_Arguments := pv_args v, req_Options := pv_opts v\<rparr>) \<and>
         parse l req (pre @ ''--'' # post) root =
           Inr (req\<lparr>req_Root := Some root, req_Command := Some (pv_cmd v), req_Path := pv_path v,
             req_Arguments := pv_args v @ post, req_Options := pv_opts v\<rparr>)"
proof -
  let ?ys = "''--'' # post"
  have c: "st_cmdline (pv_st v) = pre \<and> st_i (pv_st v) \<le> length pre"
    using parseLoop_cursor [OF run] by (simp add: parseInit_def)
  with ended have i: "st_i (pv_st v) = length pre"
    by (simp add: done_st_def)
  have "parseLoop l root (parseInit (pre @ ?ys) root optDefs0) =
      parseLoop l root (v\<lparr>pv_st := (pv_st v)\<lparr>st_cmdline := st_cmdline (pv_st v) @ ?ys\<rparr>\<rparr>)"
    using parseLoop_ext [OF run ended, of ?ys] by (simp add: parseInit_def)
  also have "\<dots> = Inr (v\<lparr>pv_st := (pv_st v)\<lparr>st_cmdline := st_cmdline (pv_st v) @ ?ys\<rparr>,
      pv_args := pv_args v @ post\<rparr>)"
    using c i by (subst parseLoop_at_double_dash [of _ pre post]) simp_all
  finally show ?thesis
    using opts run by (simp add: parse_def)
qed

theorem parse_double_dash_witness:
  "parse exLib emptyRequest
       ([''bootstrap'', ''--quiet''] @ ''--'' # [''--quiet'', ''add'', ''-x'']) exRoot =
     Inr \<lparr>req_Root = Some exRoot, req_Command = Some bootstrapCmd, req_Path = [''bootstrap''],
          req_Arguments = [''--quiet'', ''add'', ''-x''],
          req_Options = [''quiet'' \<mapsto> BoolVal True], req_Files = None\<rparr>"
proof -
  let ?v = "\<lparr>pv_path = [''bootstrap''], pv_args = [], pv_opts = [''quiet'' \<mapsto> BoolVal True],
             pv_cmd = bootstrapCmd, pv_optDefs = exOptDefs,
             pv_st = \<lparr>st_cmdline = [''bootstrap'', ''--quiet''], st_i = 2\<rparr>\<rparr>"
  have opts: "GetOptions exLib exRoot [] = Inr exOptDefs"
    by (simp add: exLib_def)
  have run: "parseLoop exLib exRoot (parseInit [''bootstrap'', ''--quiet''] exRoot exOptDefs) = Inr ?v"
    by (simp add: parseInit_def exLib_def exOptDefs_def quietOption_def exRoot_def bootstrapCmd_def
        parseLoop.simps parseStep_def done_st_def peek_def parseLongOpt_def splitkv_def)
  have ended: "done_st (pv_st ?v)"
    by (simp add: done_st_def)
  from parse_double_dash [OF opts run ended, of emptyRequest "[''--quiet'', ''add'', ''-x'']"]
  show ?thesis
    by (simp add: emptyRequest_def)
qed

subsection \<open>The request that comes with an error\<close>

lemma parse_writes_request:
  "parse l req input root = Inr req1 \<Longrightarrow> req_Root req1 = Some root \<and> req_Command req1 \<noteq> None"
  by (auto simp: parse_def split: sum.splits)

text \<open>
  C3, as stated, does not hold: \<^verbatim>\<open>Parse\<close> returns a non-nil request with every error, but
  the request is not always what was accumulated before the error. The variables of
  \<^verbatim>\<open>parse\<close> are local, and it writes them to the request only after its loop: on an error
  of \<^verbatim>\<open>parse\<close> the caller gets the empty request. Here the path \<^verbatim>\<open>bootstrap\<close> was resolved
  before the unknown option was met, and the returned request has no path and no command.
\<close>

theorem Parse_error_drops_partial:
  "Parse exLib exEnv [''bootstrap'', ''--bogus''] None exRoot =
     Some (Some emptyRequest, Some (UnknownOption ''bogus'')) \<and>
   req_Path emptyRequest = [] \<and> req_Command emptyRequest = None \<and>
   parseStep exLib exRoot (parseInit [''bootstrap'', ''--bogus''] exRoot exOptDefs) =
     Inr (Continue \<lparr>pv_path = [''bootstrap''], pv_args = [], pv_opts = Map.empty,
       pv_cmd = bootstrapCmd, pv_optDefs = exOptDefs,
       pv_st = \<lparr>st_cmdline = [''bootstrap'', ''--bogus''], st_i = 0\<rparr>\<rparr>)"
  by (simp add: Parse_def parse_def parseInit_def emptyRequest_def exLib_def exOptDefs_def
      exRoot_def bootstrapCmd_def parseLoop.simps parseStep_def done_st_def peek_def
      parseLongOpt_def splitkv_def returnErr_def)

lemma parse_result:
  assumes "parse l req input root = Inr req1"
  shows "\<exists>optDefs0 v.
           GetOptions l root [] = Inr optDefs0 \<and>
           parseLoop l root (parseInit input root optDefs0) = Inr v \<and>
           req1 = req\<lparr>req_Root := Some root, req_Command := Some (pv_cmd v),
                    req_Path := pv_path v, req_Arguments := pv_args v,
                    req_Options := pv_opts v\<rparr>"
  using assms
  by (auto simp: parse_def split: sum.splits)

lemma Parse_parse_error:
  assumes "parse l emptyRequest input root = Inl err" and "\<forall>m. err \<noteq> Panic m"
  shows "Parse l e input stdin root = Some (Some emptyRequest, Some err)"
  using assms
  by (cases err) (simp_all add: Parse_def returnErr_def)

lemma Parse_FillDefaults_error:
  assumes "parse l emptyRequest input root = Inr req1"
    and "FillDefaults l req1 = (req2, Some err)" and "\<forall>m. err \<noteq> Panic m"
  shows "Parse l e input stdin root = Some (Some req2, Some err)"
  using assms
  by (cases err) (simp_all add: Parse_def returnErr_def)

lemma Parse_parseArgs_error:
  assumes "parse l emptyRequest input root = Inr req1"
    and "FillDefaults l req1 = (req2, None)"
    and "parseArgs e req2 root (if dropsStdin req2 then None else stdin) = Some (Inl err)"
    and "\<forall>m. err \<noteq> Panic m"
  shows "Parse l e input stdin root = Some (Some req2, Some err)"
  using assms
  by (cases err) (simp_all add: Parse_def returnErr_def)

lemma Parse_error_origin:
  assumes "Parse l e input stdin root = Some (r, Some err)"
  shows "(parse l emptyRequest input root = Inl err \<and> r = Some emptyRequest) \<or>
         (\<exists>req1 req2.
            parse l emptyRequest input root = Inr req1 \<and> r = Some req2 \<and>
            req_Root req1 = Some root \<and> req_Command req1 \<noteq> None \<and>
            (FillDefaults l req1 = (req2, Some err) \<or>
             FillDefaults l req1 = (req2, None) \<and>
             parseArgs e req2 root (if dropsStdin req2 then None else stdin) = Some (Inl err)))"
proof (cases "parse l emptyRequest input root")
  case (Inl err')
  with assms show ?thesis
    by (auto simp: Parse_def Let_def returnErr_def split: error.splits)
next
  case (Inr req1)
  obtain req2 fe where fd: "FillDefaults l req1 = (req2, fe)"
    by (cases "FillDefaults l req1") auto
  show ?thesis
  proof (cases fe)
    case (Some err')
    with assms Inr fd parse_writes_request [OF Inr] show ?thesis
      by (auto simp: Parse_def Let_def returnErr_def split: error.splits)
  next
    case None
    with assms Inr fd parse_writes_request [OF Inr] show ?thesis
      by (auto simp: Parse_def Let_def returnErr_def
          split: error.splits option.splits sum.splits if_splits)
  qed
qed

text \<open>
  C3, amended. Every error of the parse is returned by \<^verbatim>\<open>Parse\<close>, together with a non-nil
  request. An error of \<^verbatim>\<open>parse\<close> (unknown option, duplicate option, missing or invalid
  option value, unrecognized command, an error of the option table) comes with the empty
  request \<^verbatim>\<open>Parse\<close> started from: what was accumulated before the error is not in it. An
  error of \<^verbatim>\<open>FillDefaults\<close> or of the argument distribution (too many arguments, a required
  argument missing, a file that cannot be resolved) comes with the request that \<^verbatim>\<open>parse\<close>
  wrote, which holds the root and the command, path, option values and positional tokens
  its loop accumulated, as \<^verbatim>\<open>FillDefaults\<close> left it. Conversely, an error that \<^verbatim>\<open>Parse\<close>
  returns is one of these, with that request. (A panic is not an error: it is not
  returned.)
\<close>

theorem Parse_error_request:
  "(parse l emptyRequest input root = Inl err \<and> (\<forall>m. err \<noteq> Panic m) \<longrightarrow>
      Parse l e input stdin root = Some (Some emptyRequest, Some err)) \<and>
   (parse l emptyRequest input root = Inr parsed \<and> (\<forall>m. err \<noteq> Panic m) \<and>
    (FillDefaults l parsed = (filled, Some err) \<or>
     FillDefaults l parsed = (filled, None) \<and>
     parseArgs e filled root (if dropsStdin filled then None else stdin) = Some (Inl err)) \<longrightarrow>
      Parse l e input stdin root = Some (Some filled, Some err) \<and>
      (\<exists>optDefs0 v.
         GetOptions l root [] = Inr optDefs0 \<and>
         parseLoop l root (parseInit input root optDefs0) = Inr v \<and>
         parsed = \<lparr>req_Root = Some root, req_Command = Some (pv_cmd v), req_Path = pv_path v,
                 req_Arguments = pv_args v, req_Options = pv_opts v, req_Files = None\<rparr>)) \<and>
   (Parse l e input stdin root = Some (r, Some err) \<longrightarrow>
      (parse l emptyRequest input root = Inl err \<and> r = Some emptyRequest) \<or>
      (\<exists>req1 req2.
         parse l emptyRequest input root = Inr req1 \<and> r = Some req2 \<and>
         req_Root req1 = Some root \<and> req_Command req1 \<noteq> None \<and>
         (FillDefaults l req1 = (req2, Some err) \<or>
          FillDefaults l req1 = (req2, None) \<and>
          parseArgs e req2 root (if dropsStdin req2 then None else stdin) = Some (Inl err))))"
proof (intro conjI impI)
  assume "parse l emptyRequest input root = Inl err \<and> (\<forall>m. err \<noteq> Panic m)"
  then show "Parse l e input stdin root = Some (Some emptyRequest, Some err)"
    using Parse_parse_error [of l input root err e stdin] by simp
next
  assume a: "parse l emptyRequest input root = Inr parsed \<and> (\<forall>m. err \<noteq> Panic m) \<and>
    (FillDefaults l parsed = (filled, Some err) \<or>
     FillDefaults l parsed = (filled, None) \<and>
     parseArgs e filled root (if dropsStdin filled then None else stdin) = Some (Inl err))"
  then show "Parse l e input stdin root = Some (Some filled, Some err)"
    using Parse_FillDefaults_error [of l input root parsed filled err e stdin]
      Parse_parseArgs_error [of l input root parsed filled e stdin err]
    by blast
  from a have "parse l emptyRequest input root = Inr parsed"
    by simp
  from parse_result [OF this]
  show "\<exists>optDefs0 v.
         GetOptions l root [] = Inr optDefs0 \<and>
         parseLoop l root (parseInit input root optDefs0) = Inr v \<and>
         parsed = \<lparr>req_Root = Some root, req_Command = Some (pv_cmd v), req_Path = pv_path v,
                 req_Arguments = pv_args v, req_Options = pv_opts v, req_Files = None\<rparr>"
    by (simp add: emptyRequest_def)
next
  assume "Parse l e input stdin root = Some (r, Some err)"
  then show "(parse l emptyRequest input root = Inl err \<and> r = Some emptyRequest) \<or>
      (\<exists>req1 req2.
         parse l emptyRequest input root = Inr req1 \<and> r = Some req2 \<and>
         req_Root req1 = Some root \<and> req_Command req1 \<noteq> None \<and>
         (FillDefaults l req1 = (req2, Some err) \<or>
          FillDefaults l req1 = (req2, None) \<and>
          parseArgs e req2 root (if dropsStdin req2 then None else stdin) = Some (Inl err)))"
    by (rule Parse_error_origin)
qed

theorem Parse_error_request_witness:
  "Parse exLib exEnv [''bootstrap'', ''x''] None exRoot =
     Some (Some \<lparr>req_Root = Some exRoot, req_Command = Some bootstrapCmd,
                 req_Path = [''bootstrap''], req_Arguments = [''x''], req_Options = Map.empty,
                 req_Files = None\<rparr>,
           Some (UnknownCommand [''x''] exRoot)) \<and>
   Parse exLib exEnv [''bootstrap'', ''--quiet'', ''--quiet''] None exRoot =
     Some (Some emptyRequest, Some (MultipleValues ''quiet''))"
proof -
  let ?req = "\<lparr>req_Root = Some exRoot, req_Command = Some bootstrapCmd,
          req_Path = [''bootstrap''], req_Arguments = [''x''], req_Options = Map.empty,
          req_Files = None\<rparr>"
  have p: "parse exLib emptyRequest [''bootstrap'', ''x''] exRoot = Inr ?req"
    by (simp add: parse_def parseInit_def emptyRequest_def exLib_def exRoot_def bootstrapCmd_def
        parseLoop.simps parseStep_def done_st_def peek_def)
  have f: "FillDefaults exLib ?req = (?req, None)"
    by (simp add: exLib_def)
  have a: "parseArgs exEnv ?req exRoot (if dropsStdin ?req then None else None) =
      Some (Inl (UnknownCommand [''x''] exRoot))"
    by (simp add: dropsStdin_def parseArgs_def bootstrapCmd_def printSuggestions_def)
  have q: "parse exLib emptyRequest [''bootstrap'', ''--quiet'', ''--quiet''] exRoot =
      Inl (MultipleValues ''quiet'')"
    by (simp add: parse_def parseInit_def emptyRequest_def exLib_def exRoot_def bootstrapCmd_def
        exOptDefs_def quietOption_def Let_def
        parseLoop.simps parseStep_def done_st_def peek_def parseLongOpt_def splitkv_def)
  from Parse_error_request
    [where l = exLib and e = exEnv and input = "[''bootstrap'', ''x'']" and stdin = None
      and root = exRoot and err = "UnknownCommand [''x''] exRoot" and parsed = ?req
      and filled = ?req and r = None]
    Parse_error_request
    [where l = exLib and e = exEnv and input = "[''bootstrap'', ''--quiet'', ''--quiet'']"
      and stdin = None and root = exRoot and err = "MultipleValues ''quiet''" and parsed = ?req
      and filled = ?req and r = None]
    p f a q
  show ?thesis
    by simp
qed

subsection \<open>A last slot left to standard input\<close>

text \<open>
  C4. After the loop over the inputs, if exactly one slot was not reached (the cursor of the
  slots stands on the last one), standard input is still there and that slot supports
  standard input, the slot counts as satisfied: the end of \<^verbatim>\<open>parseArgs\<close> raises no "argument
  required" error and writes the request, taking no further token.
\<close>

theorem finishArgs_pretends_stdin:
  assumes "int (av_iArgDef s) = int (length argDefs) - 1"
    and "av_stdin s \<noteq> None"
    and "arg_SupportsStdin (argDefs ! av_iArgDef s)"
  shows "finishArgs req argDefs s =
           Inr (req\<lparr>req_Arguments := av_stringArgs s,
             req_Files := (if length (av_fileArgs s) > 0 then Some (av_fileArgs s) else req_Files req)\<rparr>)"
proof -
  from assms(1) have "av_iArgDef s + 1 = length argDefs"
    by linarith
  with assms show ?thesis
    by (simp add: finishArgs_def)
qed

theorem finishArgs_pretends_stdin_witness:
  "parseArgs exEnv (emptyRequest\<lparr>req_Command := Some (Command [] [firstArg, dataArg] False [])\<rparr>)
       exRoot (Some exStdin) =
     Some (Inr (emptyRequest\<lparr>req_Command := Some (Command [] [firstArg, dataArg] False [])\<rparr>))"
proof -
  let ?s = "\<lparr>av_iArgDef = 1, av_remRequired = 1, av_inputs = [], av_stringArgs = [],
             av_fileArgs = [], av_stdin = Some exStdin\<rparr>"
  let ?req = "emptyRequest\<lparr>req_Command := Some (Command [] [firstArg, dataArg] False [])\<rparr>"
  have loop: "argsLoop exEnv ?req [firstArg, dataArg] 1 0 (argsInit [firstArg, dataArg] [] (Some exStdin)) =
      Some (Inr ?s)"
    by (simp add: argsLoop.simps argsBody_def argsInit_def skipOptional.simps getArgDef_def
        fillString_def Let_def firstArg_def dataArg_def)
  have "finishArgs ?req [firstArg, dataArg] ?s = Inr ?req"
    using finishArgs_pretends_stdin [of ?s "[firstArg, dataArg]" ?req]
    by (simp add: dataArg_def emptyRequest_def)
  with loop show ?thesis
    by (simp add: parseArgs_def Let_def emptyRequest_def dataArg_def)
qed

subsection \<open>More tokens than slots\<close>

text \<open>
  C5. If there are more positional tokens than argument slots and the last slot is not
  variadic (or there is no slot), \<^verbatim>\<open>parseArgs\<close> answers the unrecognized-command condition
  with the tokens and the root, whatever the files, the environment and standard input
  are: no slot is filled and no file is looked at.
\<close>

theorem parseArgs_too_many:
  assumes "req_Command req = Some c"
    and "length (req_Arguments req) > length (cmd_Arguments c)"
    and "cmd_Arguments c = [] \<or> \<not> arg_Variadic (last (cmd_Arguments c))"
  shows "parseArgs e req root stdin = Some (Inl (printSuggestions (req_Arguments req) root)) \<and>
         printSuggestions (req_Arguments req) root = UnknownCommand (req_Arguments req) root"
  using assms
  by (auto simp: parseArgs_def Let_def printSuggestions_def last_conv_nth)

theorem parseArgs_too_many_witness:
  "parseArgs exEnv (emptyRequest\<lparr>req_Command := Some bootstrapCmd, req_Arguments := [''x'']\<rparr>)
       exRoot (Some exStdin) =
     Some (Inl (UnknownCommand [''x''] exRoot))"
  using parseArgs_too_many
    [of "emptyRequest\<lparr>req_Command := Some bootstrapCmd, req_Arguments := [''x'']\<rparr>"
      bootstrapCmd exEnv exRoot "Some exStdin"]
  by (simp add: bootstrapCmd_def)

subsection \<open>Boolean options\<close>

lemma splitkv_no_eq: "CHR ''='' \<notin> set k \<Longrightarrow> splitkv k = (k, [], False)"
  by (simp add: splitkv_def)

lemma parseLongOpt_bool_flag:
  assumes "st_i st < length (st_cmdline st)"
    and "st_cmdline st ! st_i st = ''--'' @ name"
    and "CHR ''='' \<notin> set name"
    and "optDefs name = Some od" and "opt_Type od = Bool"
  shows "parseLongOpt st optDefs = Inr (st, name, BoolVal True)"
  using assms
  by (simp add: parseLongOpt_def peek_def splitkv_no_eq)

lemma parseLongOpt_bool_cursor:
  assumes "parseLongOpt st optDefs = Inr (st', k, v)"
    and "optDefs k = Some od" and "opt_Type od = Bool"
  shows "st' = st"
proof -
  from assms(1) obtain p where p: "peek st = Inr p"
    by (cases "peek st") (auto simp: parseLongOpt_def)
  obtain k0 v0 ok where s: "splitkv (drop 2 p) = (k0, v0, ok)"
    by (cases "splitkv (drop 2 p)") auto
  show ?thesis
  proof (cases ok)
    case True
    with assms(1) p s show ?thesis
      by (auto simp: parseLongOpt_def split: sum.splits)
  next
    case False
    with assms(1) p s have "k = k0"
      by (auto simp: parseLongOpt_def Let_def split: option.splits if_splits sum.splits)
    with assms p s False show ?thesis
      by (simp add: parseLongOpt_def)
  qed
qed

lemma shortLoop_bool_flag:
  assumes "j < length k" and "optDefs [k ! j] = Some od" and "opt_Type od = Bool"
  shows "shortLoop optDefs st k j kvs = shortLoop optDefs st k (j + 1) (kvs @ [([k ! j], BoolVal True)])"
proof -
  from assms(1) have "take 1 (drop j k) = [k ! j]"
    by (simp add: take_Suc_conv_app_nth [symmetric] Cons_nth_drop_Suc [symmetric])
  with assms show ?thesis
    by (subst shortLoop.simps) simp
qed

lemma shortLoop_moved:
  "shortLoop optDefs st k j kvs = Inr (st', kvs') \<Longrightarrow> st' \<noteq> st \<Longrightarrow>
     kvs' \<noteq> [] \<and> (\<forall>od. optDefs (fst (last kvs')) = Some od \<longrightarrow> opt_Type od \<noteq> Bool)"
proof (induction optDefs st k j kvs rule: shortLoop.induct)
  case (1 optDefs st k j kvs)
  show ?case
  proof (cases "j < length k")
    case False
    with "1.prems" show ?thesis
      by (simp add: shortLoop.simps [of _ _ k j])
  next
    case True
    show ?thesis
    proof (cases "optDefs (take 1 (drop j k))")
      case None
      with True "1.prems" show ?thesis
        by (simp add: shortLoop.simps [of _ _ k j])
    next
      case (Some od)
      show ?thesis
      proof (cases "opt_Type od = Bool")
        case True
        with \<open>j < length k\<close> Some "1.prems" "1.IH" [OF \<open>j < length k\<close> refl Some True]
        show ?thesis
          by (simp add: shortLoop.simps [of _ _ k j])
      next
        case False
        with \<open>j < length k\<close> Some "1.prems" show ?thesis
          by (auto simp: shortLoop.simps [of _ _ k j] Let_def split: if_splits sum.splits)
      qed
    qed
  qed
qed

lemma parseShortOpts_moved:
  assumes "parseShortOpts st optDefs = Inr (st', kvs)" and "st' \<noteq> st"
  shows "kvs \<noteq> [] \<and> (\<forall>od. optDefs (fst (last kvs)) = Some od \<longrightarrow> opt_Type od \<noteq> Bool)"
proof -
  from assms(1) obtain p where p: "peek st = Inr p"
    by (cases "peek st") (auto simp: parseShortOpts_def)
  obtain k vStr ok where s: "splitkv (drop 1 p) = (k, vStr, ok)"
    by (cases "splitkv (drop 1 p)") auto
  show ?thesis
  proof (cases ok)
    case True
    with assms p s show ?thesis
      by (auto simp: parseShortOpts_def split: sum.splits)
  next
    case False
    with assms p s have "shortLoop optDefs st k 0 [] = Inr (st', kvs)"
      by (simp add: parseShortOpts_def)
    from shortLoop_moved [OF this assms(2)] show ?thesis .
  qed
qed

lemma shortLoop_all_bool:
  "\<forall>n < length k. n \<ge> j \<longrightarrow> (\<exists>od. optDefs [k ! n] = Some od \<and> opt_Type od = Bool) \<Longrightarrow>
     shortLoop optDefs st k j kvs = Inr (st, kvs @ map (\<lambda>c. ([c], BoolVal True)) (drop j k))"
proof (induction optDefs st k j kvs rule: shortLoop.induct)
  case (1 optDefs st k j kvs)
  show ?case
  proof (cases "j < length k")
    case False
    then show ?thesis
      by (simp add: shortLoop.simps [of _ _ k j])
  next
    case True
    with "1.prems" obtain od where od: "optDefs [k ! j] = Some od" "opt_Type od = Bool"
      by auto
    from True have t: "take 1 (drop j k) = [k ! j]"
      by (simp add: take_Suc_conv_app_nth [symmetric] Cons_nth_drop_Suc [symmetric])
    from "1.prems" have "\<forall>n < length k. n \<ge> j + 1 \<longrightarrow> (\<exists>od. optDefs [k ! n] = Some od \<and> opt_Type od = Bool)"
      by auto
    from "1.IH" [OF True t [symmetric] _ od(2) this] od t
    have "shortLoop optDefs st k (j + 1) (kvs @ [([k ! j], BoolVal True)]) =
        Inr (st, (kvs @ [([k ! j], BoolVal True)]) @ map (\<lambda>c. ([c], BoolVal True)) (drop (j + 1) k))"
      by simp
    with shortLoop_bool_flag [of j k optDefs od st kvs] True od show ?thesis
      by (simp add: Cons_nth_drop_Suc [symmetric])
  qed
qed

text \<open>
  C6. A boolean option never takes the next token as its value. A long token \<^verbatim>\<open>--name\<close> of
  a boolean option records true and leaves the cursor where it is, and whenever
  \<^verbatim>\<open>parseLongOpt\<close> answers a boolean option the cursor has not moved. In a combined short
  token a boolean flag records true and the scan goes on at the next byte with the same
  cursor; a token of boolean flags only leaves the cursor in place; and when
  \<^verbatim>\<open>parseShortOpts\<close> does move the cursor, the flag that took the next token is the last
  one recorded and is not boolean.
\<close>

theorem bool_option_takes_no_value:
  "(st_i st < length (st_cmdline st) \<and> st_cmdline st ! st_i st = ''--'' @ name \<and>
    CHR ''='' \<notin> set name \<and> optDefs name = Some od \<and> opt_Type od = Bool \<longrightarrow>
      parseLongOpt st optDefs = Inr (st, name, BoolVal True)) \<and>
   (parseLongOpt st optDefs = Inr (st', key, v) \<and> optDefs key = Some od \<and> opt_Type od = Bool \<longrightarrow>
      st' = st) \<and>
   (j < length k \<and> optDefs [k ! j] = Some od \<and> opt_Type od = Bool \<longrightarrow>
      shortLoop optDefs st k j kvs =
        shortLoop optDefs st k (j + 1) (kvs @ [([k ! j], BoolVal True)])) \<and>
   ((\<forall>n < length k. \<exists>od'. optDefs [k ! n] = Some od' \<and> opt_Type od' = Bool) \<longrightarrow>
      shortLoop optDefs st k 0 [] = Inr (st, map (\<lambda>c. ([c], BoolVal True)) k)) \<and>
   (parseShortOpts st optDefs = Inr (st', kvs') \<and> st' \<noteq> st \<longrightarrow>
      kvs' \<noteq> [] \<and> (\<forall>od'. optDefs (fst (last kvs')) = Some od' \<longrightarrow> opt_Type od' \<noteq> Bool))"
proof (intro conjI impI)
  assume "st_i st < length (st_cmdline st) \<and> st_cmdline st ! st_i st = ''--'' @ name \<and>
    CHR ''='' \<notin> set name \<and> optDefs name = Some od \<and> opt_Type od = Bool"
  then show "parseLongOpt st optDefs = Inr (st, name, BoolVal True)"
    by (simp add: parseLongOpt_bool_flag)
next
  assume "parseLongOpt st optDefs = Inr (st', key, v) \<and> optDefs key = Some od \<and> opt_Type od = Bool"
  then show "st' = st"
    using parseLongOpt_bool_cursor [of st optDefs st' key v od] by simp
next
  assume "j < length k \<and> optDefs [k ! j] = Some od \<and> opt_Type od = Bool"
  then show "shortLoop optDefs st k j kvs =
      shortLoop optDefs st k (j + 1) (kvs @ [([k ! j], BoolVal True)])"
    using shortLoop_bool_flag [of j k optDefs od st kvs] by simp
next
  assume "\<forall>n < length k. \<exists>od'. optDefs [k ! n] = Some od' \<and> opt_Type od' = Bool"
  then show "shortLoop optDefs st k 0 [] = Inr (st, map (\<lambda>c. ([c], BoolVal True)) k)"
    using shortLoop_all_bool [of k 0 optDefs st "[]"] by simp
next
  assume a: "parseShortOpts st optDefs = Inr (st', kvs') \<and> st' \<noteq> st"
  then show "kvs' \<noteq> []"
    using parseShortOpts_moved [of st optDefs st' kvs'] by simp
  from a show "\<forall>od'. optDefs (fst (last kvs')) = Some od' \<longrightarrow> opt_Type od' \<noteq> Bool"
    using parseShortOpts_moved [of st optDefs st' kvs'] by simp
qed

theorem bool_option_takes_no_value_witness:
  "parseLongOpt \<lparr>st_cmdline = [''--quiet'', ''next''], st_i = 0\<rparr> exOptDefs =
     Inr (\<lparr>st_cmdline = [''--quiet'', ''next''], st_i = 0\<rparr>, ''quiet'', BoolVal True) \<and>
   shortLoop exOptDefs \<lparr>st_cmdline = [''-qq'', ''next''], st_i = 0\<rparr> ''qq'' 0 [] =
     Inr (\<lparr>st_cmdline = [''-qq'', ''next''], st_i = 0\<rparr>,
          [(''q'', BoolVal True), (''q'', BoolVal True)]) \<and>
   parseShortOpts \<lparr>st_cmdline = [''-qe'', ''json''], st_i = 0\<rparr> exOptDefs =
     Inr (\<lparr>st_cmdline = [''-qe'', ''json''], st_i = 1\<rparr>,
          [(''q'', BoolVal True), (''e'', StringVal ''json'')]) \<and>
   exOptDefs ''e'' = Some encOption \<and> opt_Type encOption \<noteq> Bool"
proof -
  let ?st = "\<lparr>st_cmdline = [''--quiet'', ''next''], st_i = 0\<rparr>"
  let ?st2 = "\<lparr>st_cmdline = [''-qq'', ''next''], st_i = 0\<rparr>"
  let ?st3 = "\<lparr>st_cmdline = [''-qe'', ''json''], st_i = 0\<rparr>"
  have q: "exOptDefs ''quiet'' = Some quietOption" "exOptDefs ''q'' = Some quietOption"
    "exOptDefs ''e'' = Some encOption" "opt_Type quietOption = Bool" "opt_Type encOption \<noteq> Bool"
    by (simp_all add: exOptDefs_def quietOption_def encOption_def)
  have s: "parseShortOpts ?st3 exOptDefs =
      Inr (\<lparr>st_cmdline = [''-qe'', ''json''], st_i = 1\<rparr>,
          [(''q'', BoolVal True), (''e'', StringVal ''json'')])"
    by (simp add: parseShortOpts_def peek_def splitkv_def shortLoop.simps q parseOpt_def
        encOption_def Let_def)
  have a: "parseLongOpt ?st exOptDefs = Inr (?st, ''quiet'', BoolVal True)"
    using bool_option_takes_no_value
      [where st = ?st and name = "''quiet''" and optDefs = exOptDefs and od = quietOption
        and k = "''qq''" and j = 0 and st' = ?st and key = "''quiet''" and v = "BoolVal True"
        and kvs = "[]" and kvs' = "[]"] q
    by simp
  have b: "shortLoop exOptDefs ?st2 ''qq'' 0 [] =
      Inr (?st2, [(''q'', BoolVal True), (''q'', BoolVal True)])"
  proof -
    have "\<forall>n < length ''qq''. \<exists>od'. exOptDefs [''qq'' ! n] = Some od' \<and> opt_Type od' = Bool"
      using q by (simp add: less_Suc_eq)
    with bool_option_takes_no_value
      [where st = ?st2 and name = "''quiet''" and optDefs = exOptDefs and od = quietOption
        and k = "''qq''" and j = 0 and st' = ?st2 and key = "''quiet''" and v = "BoolVal True"
        and kvs = "[]" and kvs' = "[]"]
    show ?thesis
      by simp
  qed
  from a b s q show ?thesis
    by simp
qed

subsection \<open>A required slot and a variadic one\<close>

lemma argsLoop_one_then_variadic_a:
  assumes "arg_Type a1 = ArgString" and "arg_Required a1"
    and "arg_Type a2 = ArgString" and "\<not> arg_Required a2" and "arg_Variadic a2"
    and "stdin = None \<or> \<not> arg_SupportsStdin a2"
  shows "argsLoop e req [a1, a2] 1 0 (argsInit [a1, a2] [''a''] stdin) =
           Some (Inr \<lparr>av_iArgDef = 1, av_remRequired = 0, av_inputs = [], av_stringArgs = [''a''],
             av_fileArgs = [], av_stdin = stdin\<rparr>)"
  using assms(1-5)
  by (simp add: argsLoop.simps argsBody_def argsInit_def skipOptional.simps getArgDef_def
      fillString_def Let_def)

lemma argsLoop_one_then_variadic_abc:
  assumes "arg_Type a1 = ArgString" and "arg_Required a1"
    and "arg_Type a2 = ArgString" and "\<not> arg_Required a2" and "arg_Variadic a2"
    and "stdin = None \<or> \<not> arg_SupportsStdin a2"
  shows "argsLoop e req [a1, a2] 3 0 (argsInit [a1, a2] [''a'', ''b'', ''c''] stdin) =
           Some (Inr \<lparr>av_iArgDef = 3, av_remRequired = 0, av_inputs = [],
             av_stringArgs = [''a'', ''b'', ''c''], av_fileArgs = [], av_stdin = stdin\<rparr>)"
  using assms(1-5)
  by (simp add: argsLoop.simps argsBody_def argsInit_def skipOptional.simps getArgDef_def
      fillString_def Let_def)

text \<open>
  C7. For a command with a required string slot followed by an optional variadic string
  slot, and no standard input for the last slot, the inputs \<^verbatim>\<open>["a"]\<close> give the positional
  strings \<^verbatim>\<open>["a"]\<close> and no error, the loop ending after the first slot with nothing for the
  variadic one; the inputs \<^verbatim>\<open>["a","b","c"]\<close> give \<^verbatim>\<open>["a","b","c"]\<close> and no error, the
  second and third turn of the loop filling the variadic slot.
\<close>

theorem parseArgs_required_then_variadic:
  assumes "req_Command req = Some c" and "cmd_Arguments c = [a1, a2]"
    and "arg_Type a1 = ArgString" and "arg_Required a1"
    and "arg_Type a2 = ArgString" and "\<not> arg_Required a2" and "arg_Variadic a2"
    and "stdin = None \<or> \<not> arg_SupportsStdin a2"
  shows "(req_Arguments req = [''a''] \<longrightarrow>
            parseArgs e req root stdin = Some (Inr (req\<lparr>req_Arguments := [''a'']\<rparr>)) \<and>
            argsLoop e req [a1, a2] 1 0 (argsInit [a1, a2] [''a''] stdin) =
              Some (Inr \<lparr>av_iArgDef = 1, av_remRequired = 0, av_inputs = [],
                av_stringArgs = [''a''], av_fileArgs = [], av_stdin = stdin\<rparr>)) \<and>
         (req_Arguments req = [''a'', ''b'', ''c''] \<longrightarrow>
            parseArgs e req root stdin = Some (Inr (req\<lparr>req_Arguments := [''a'', ''b'', ''c'']\<rparr>)) \<and>
            argsLoop e req [a1, a2] 3 0 (argsInit [a1, a2] [''a'', ''b'', ''c''] stdin) =
              Some (Inr \<lparr>av_iArgDef = 3, av_remRequired = 0, av_inputs = [],
                av_stringArgs = [''a'', ''b'', ''c''], av_fileArgs = [], av_stdin = stdin\<rparr>))"
proof -
  note la = argsLoop_one_then_variadic_a [OF assms(3-8), of e req]
  note lb = argsLoop_one_then_variadic_abc [OF assms(3-8), of e req]
  from assms(8) have n: "\<not> (arg_SupportsStdin a2 \<and> stdin \<noteq> None)"
    by auto
  have "req_Arguments req = [''a''] \<Longrightarrow>
      parseArgs e req root stdin = Some (Inr (req\<lparr>req_Arguments := [''a'']\<rparr>))"
    using assms(1,2,6,7) n la
    by (auto simp: parseArgs_def Let_def finishArgs_def eval_nat_numeral)
  moreover have "req_Arguments req = [''a'', ''b'', ''c''] \<Longrightarrow>
      parseArgs e req root stdin = Some (Inr (req\<lparr>req_Arguments := [''a'', ''b'', ''c'']\<rparr>))"
    using assms(1,2,6,7) n lb
    by (auto simp: parseArgs_def Let_def finishArgs_def eval_nat_numeral)
  ultimately show ?thesis
    using la lb by simp
qed

theorem parseArgs_required_then_variadic_witness:
  "parseArgs exEnv
       (emptyRequest\<lparr>req_Command := Some (Command [] [firstArg, restArg] False []),
          req_Arguments := [''a'']\<rparr>) exRoot None =
     Some (Inr (emptyRequest\<lparr>req_Command := Some (Command [] [firstArg, restArg] False []),
       req_Arguments := [''a'']\<rparr>)) \<and>
   parseArgs exEnv
       (emptyRequest\<lparr>req_Command := Some (Command [] [firstArg, restArg] False []),
          req_Arguments := [''a'', ''b'', ''c'']\<rparr>) exRoot None =
     Some (Inr (emptyRequest\<lparr>req_Command := Some (Command [] [firstArg, restArg] False []),
       req_Arguments := [''a'', ''b'', ''c'']\<rparr>))"
  using parseArgs_required_then_variadic
    [of "emptyRequest\<lparr>req_Command := Some (Command [] [firstArg, restArg] False []),
          req_Arguments := [''a'']\<rparr>"
      "Command [] [firstArg, restArg] False []" firstArg restArg None exEnv exRoot]
    parseArgs_required_then_variadic
    [of "emptyRequest\<lparr>req_Command := Some (Command [] [firstArg, restArg] False []),
          req_Arguments := [''a'', ''b'', ''c'']\<rparr>"
      "Command [] [firstArg, restArg] False []" firstArg restArg None exEnv exRoot]
  by (simp add: firstArg_def restArg_def)

subsection \<open>Directories\<close>

text \<open>
  C8, as stated, does not hold in its third case. With a recursive slot and the runtime
  recursion option, \<^verbatim>\<open>appendFile\<close> hands the directory to \<^verbatim>\<open>files.NewSerialFile\<close> and returns
  what that call returns, and the call can fail: here the directory cannot be read, and
  the resolution ends in that error, not in a directory node.
\<close>

theorem appendFile_directory_may_fail:
  "Lstat lockedEnv ''dir'' = Inr \<lparr>fi_IsDir = True, fi_CharDevice = False\<rparr> \<and>
   arg_Recursive pathArg \<and>
   isRecursive (emptyRequest\<lparr>req_Options := [''recursive'' \<mapsto> BoolVal True]\<rparr>) \<and>
   appendFile lockedEnv ''dir'' pathArg
       (isRecursive (emptyRequest\<lparr>req_Options := [''recursive'' \<mapsto> BoolVal True]\<rparr>)) False =
     Inl (Failure ''permission denied'')"
  by (simp add: lockedEnv_def exEnv_def pathArg_def isRecursive_def emptyRequest_def RecLong_def
      appendFile_def)

text \<open>
  C8, amended. For a path that \<^verbatim>\<open>Lstat\<close> reports as a directory: a slot that is not
  recursive gives the "does not support directories" error; a recursive slot without the
  runtime recursion option gives the "is a directory, use the recursive flag" error; with
  both, \<^verbatim>\<open>appendFile\<close> raises no directory error and returns the result of
  \<^verbatim>\<open>files.NewSerialFile\<close> on the directory: the node it builds when it succeeds, its error
  when it fails.
\<close>

theorem appendFile_directory:
  assumes "Lstat e fpath = Inr stat" and "fi_IsDir stat"
  shows "(\<not> arg_Recursive argDef \<longrightarrow>
            appendFile e fpath argDef recursive hidden =
              Inl (DirNotSupported fpath (arg_Name argDef))) \<and>
         (arg_Recursive argDef \<and> \<not> isRecursive req \<longrightarrow>
            appendFile e fpath argDef (isRecursive req) hidden = Inl (NotRecursive fpath RecShort)) \<and>
         (arg_Recursive argDef \<and> isRecursive req \<longrightarrow>
            appendFile e fpath argDef (isRecursive req) hidden = NewSerialFile e fpath hidden stat \<and>
            (\<forall>node. NewSerialFile e fpath hidden stat = Inr node \<longrightarrow>
               appendFile e fpath argDef (isRecursive req) hidden = Inr node) \<and>
            (\<forall>err. NewSerialFile e fpath hidden stat = Inl err \<longrightarrow>
               appendFile e fpath argDef (isRecursive req) hidden = Inl err))"
  using assms
  by (simp add: appendFile_def)

theorem appendFile_directory_witness:
  "appendFile exEnv ''dir'' firstArg True False = Inl (DirNotSupported ''dir'' ''first'') \<and>
   appendFile exEnv ''dir'' pathArg (isRecursive emptyRequest) False = Inl (NotRecursive ''dir'' ''r'') \<and>
   appendFile exEnv ''dir'' pathArg
       (isRecursive (emptyRequest\<lparr>req_Options := [''recursive'' \<mapsto> BoolVal True]\<rparr>)) False =
     Inr (SerialFile ''dir'' False \<lparr>fi_IsDir = True, fi_CharDevice = False\<rparr>)"
proof -
  have l: "Lstat exEnv ''dir'' = Inr \<lparr>fi_IsDir = True, fi_CharDevice = False\<rparr>"
    by (simp add: exEnv_def)
  have d: "fi_IsDir \<lparr>fi_IsDir = True, fi_CharDevice = False\<rparr>"
    by simp
  have n: "NewSerialFile exEnv ''dir'' False \<lparr>fi_IsDir = True, fi_CharDevice = False\<rparr> =
      Inr (SerialFile ''dir'' False \<lparr>fi_IsDir = True, fi_CharDevice = False\<rparr>)"
    by (simp add: exEnv_def)
  from appendFile_directory [OF l d, of firstArg True False emptyRequest]
    appendFile_directory [OF l d, of pathArg True False emptyRequest]
    appendFile_directory [OF l d, of pathArg True False
      "emptyRequest\<lparr>req_Options := [''recursive'' \<mapsto> BoolVal True]\<rparr>"]
    n
  show ?thesis
    by (simp add: firstArg_def pathArg_def isRecursive_def emptyRequest_def RecLong_def RecShort_def)
qed

subsection \<open>Standard input given up\<close>

lemma fillString_no_stdin:
  assumes "av_stdin s = None"
  shows "fillString (e\<lparr>NewReaderPathFile := f\<rparr>) argDef fv s = fillString e argDef fv s"
    and "fillString e argDef fv s = Inr s' \<Longrightarrow> av_stdin s' = None"
  using assms
  by (auto simp: fillString_def split: list.splits)

lemma appendFile_reader_free:
  "appendFile (e\<lparr>NewReaderPathFile := f\<rparr>) fpath argDef recursive hidden =
     appendFile e fpath argDef recursive hidden"
  by (simp add: appendFile_def cong: sum.case_cong if_cong)

lemma fillFile_no_stdin:
  assumes "av_stdin s = None"
  shows "fillFile (e\<lparr>NewReaderPathFile := f\<rparr>) req argDef fv s = fillFile e req argDef fv s"
    and "fillFile e req argDef fv s = Inr s' \<Longrightarrow> av_stdin s' = None"
proof -
  show "fillFile (e\<lparr>NewReaderPathFile := f\<rparr>) req argDef fv s = fillFile e req argDef fv s"
  proof (cases "av_inputs s")
    case Nil
    with assms show ?thesis
      by (simp add: fillFile_def)
  next
    case (Cons fpath rest)
    with assms show ?thesis
      by (simp add: fillFile_def maybeWrapStdin_def isTty_def isURL_def appendFile_reader_free
          cong: sum.case_cong option.case_cong if_cong)
  qed
  show "fillFile e req argDef fv s = Inr s' \<Longrightarrow> av_stdin s' = None"
  proof (cases "av_inputs s")
    case Nil
    assume "fillFile e req argDef fv s = Inr s'"
    with Nil assms show ?thesis
      by (simp add: fillFile_def)
  next
    case (Cons fpath rest)
    assume "fillFile e req argDef fv s = Inr s'"
    with Cons assms show ?thesis
      by (auto simp: fillFile_def maybeWrapStdin_def isTty_def Let_def
          split: if_splits option.splits sum.splits)
  qed
qed

lemma argsBody_no_stdin:
  assumes "av_stdin s = None"
  shows "argsBody (e\<lparr>NewReaderPathFile := f\<rparr>) req argDefs n iInput s =
           argsBody e req argDefs n iInput s"
    and "argsBody e req argDefs n iInput s = Some (Inr s') \<Longrightarrow> av_stdin s' = None"
proof -
  show "argsBody (e\<lparr>NewReaderPathFile := f\<rparr>) req argDefs n iInput s =
      argsBody e req argDefs n iInput s"
    using assms
    by (auto simp: argsBody_def Let_def fillString_no_stdin(1) fillFile_no_stdin(1)
        split: option.splits sum.splits prod.splits ArgumentType.splits)
  assume "argsBody e req argDefs n iInput s = Some (Inr s')"
  with assms show "av_stdin s' = None"
    by (auto simp: argsBody_def Let_def split: option.splits sum.splits prod.splits
        ArgumentType.splits dest!: fillString_no_stdin(2) [rotated] fillFile_no_stdin(2) [rotated])
qed

lemma argsLoop_no_stdin:
  "av_stdin s = None \<Longrightarrow>
     argsLoop (e\<lparr>NewReaderPathFile := f\<rparr>) req argDefs n iInput s =
     argsLoop e req argDefs n iInput s"
proof (induction e req argDefs n iInput s rule: argsLoop.induct)
  case (1 e req argDefs numInputs iInput s)
  show ?case
  proof (cases "iInput < numInputs")
    case False
    then show ?thesis
      by (simp add: argsLoop.simps [of _ _ _ numInputs iInput])
  next
    case True
    note b1 = argsBody_no_stdin(1) [OF "1.prems", where e = e and f = f and req = req
        and argDefs = argDefs and n = numInputs and iInput = iInput]
    note b2 = argsBody_no_stdin(2) [OF "1.prems", where e = e and req = req
        and argDefs = argDefs and n = numInputs and iInput = iInput]
    show ?thesis
    proof (cases "argsBody e req argDefs numInputs iInput s")
      case None
      with True b1 show ?thesis
        by (simp add: argsLoop.simps [of _ _ _ numInputs iInput])
    next
      case (Some x)
      show ?thesis
      proof (cases x)
        case (Inl err)
        with True Some b1 show ?thesis
          by (simp add: argsLoop.simps [of _ _ _ numInputs iInput])
      next
        case (Inr s')
        with Some b2 have "av_stdin s' = None"
          by simp
        from "1.IH" [OF True Some Inr this] True Some Inr b1 show ?thesis
          by (simp add: argsLoop.simps [of _ _ _ numInputs iInput])
      qed
    qed
  qed
qed

lemma parseArgs_no_stdin:
  "parseArgs (e\<lparr>NewReaderPathFile := f\<rparr>) req root None = parseArgs e req root None"
  by (simp add: parseArgs_def Let_def argsLoop_no_stdin argsInit_def split: option.splits)

text \<open>
  C9. When the resolved path is \<^verbatim>\<open>bootstrap add\<close> with the option "default" true, or
  \<^verbatim>\<open>bootstrap rm\<close> with the option "all" true, \<^verbatim>\<open>Parse\<close> gives up its standard-input handle
  before it distributes the arguments: the result is the one of the same call without any
  standard input, and it does not depend on the constructor that makes a file node of
  standard input, so no slot is filled from it.
\<close>

theorem Parse_drops_stdin:
  assumes "parse l emptyRequest input root = Inr req1"
    and "FillDefaults l req1 = (req2, None)"
    and "(req_Path req2 = [''bootstrap'', ''add''] \<and>
          req_Options req2 ''default'' = Some (BoolVal True)) \<or>
         (req_Path req2 = [''bootstrap'', ''rm''] \<and>
          req_Options req2 ''all'' = Some (BoolVal True))"
  shows "Parse l e input stdin root = Parse l e input None root \<and>
         Parse l (e\<lparr>NewReaderPathFile := f\<rparr>) input stdin root = Parse l e input stdin root"
proof -
  from assms(3) have "dropsStdin req2"
    by (auto simp: dropsStdin_def)
  with assms(1,2) show ?thesis
    by (simp add: Parse_def Let_def parseArgs_no_stdin)
qed

theorem Parse_drops_stdin_witness:
  "Parse exLib exEnv [''bootstrap'', ''add'', ''--default''] (Some exStdin) exRoot =
     Some (Some \<lparr>req_Root = Some exRoot, req_Command = Some bootstrapAddCmd,
                 req_Path = [''bootstrap'', ''add''], req_Arguments = [],
                 req_Options = [''default'' \<mapsto> BoolVal True], req_Files = None\<rparr>, None) \<and>
   Parse exLib exEnv [''bootstrap'', ''add''] (Some exStdin) exRoot =
     Some (Some \<lparr>req_Root = Some exRoot, req_Command = Some bootstrapAddCmd,
                 req_Path = [''bootstrap'', ''add''], req_Arguments = [],
                 req_Options = Map.empty,
                 req_Files = Some [(''stdin'', ReaderPathFile ''/dev/stdin'' (FileReader exStdin))]\<rparr>,
           None)"
proof -
  let ?req = "\<lparr>req_Root = Some exRoot, req_Command = Some bootstrapAddCmd,
                 req_Path = [''bootstrap'', ''add''], req_Arguments = [],
                 req_Options = [''default'' \<mapsto> BoolVal True], req_Files = None\<rparr>"
  have p: "parse exLib emptyRequest [''bootstrap'', ''add'', ''--default''] exRoot = Inr ?req"
    by (simp add: parse_def parseInit_def emptyRequest_def exLib_def exRoot_def bootstrapCmd_def
        bootstrapAddCmd_def exOptDefs_def defaultOption_def Let_def
        parseLoop.simps parseStep_def done_st_def peek_def parseLongOpt_def splitkv_def)
  have f: "FillDefaults exLib ?req = (?req, None)"
    by (simp add: exLib_def)
  have c: "(req_Path ?req = [''bootstrap'', ''add''] \<and> req_Options ?req ''default'' = Some (BoolVal True)) \<or>
         (req_Path ?req = [''bootstrap'', ''rm''] \<and> req_Options ?req ''all'' = Some (BoolVal True))"
    by simp
  have n: "Parse exLib exEnv [''bootstrap'', ''add'', ''--default''] None exRoot = Some (Some ?req, None)"
    by (simp add: Parse_def p exLib_simps dropsStdin_def parseArgs_def bootstrapAddCmd_def Let_def
        argsLoop.simps argsInit_def finishArgs_def peerArg_def EncLong_def)
  have p2: "parse exLib emptyRequest [''bootstrap'', ''add''] exRoot =
      Inr \<lparr>req_Root = Some exRoot, req_Command = Some bootstrapAddCmd,
                 req_Path = [''bootstrap'', ''add''], req_Arguments = [],
                 req_Options = Map.empty, req_Files = None\<rparr>"
    by (simp add: parse_def parseInit_def emptyRequest_def exLib_def exRoot_def bootstrapCmd_def
        bootstrapAddCmd_def Let_def parseLoop.simps parseStep_def done_st_def peek_def)
  have w: "Parse exLib exEnv [''bootstrap'', ''add''] (Some exStdin) exRoot =
     Some (Some \<lparr>req_Root = Some exRoot, req_Command = Some bootstrapAddCmd,
                 req_Path = [''bootstrap'', ''add''], req_Arguments = [],
                 req_Options = Map.empty,
                 req_Files = Some [(''stdin'', ReaderPathFile ''/dev/stdin'' (FileReader exStdin))]\<rparr>,
           None)"
    by (simp add: Parse_def p2 exLib_simps dropsStdin_def parseArgs_def bootstrapAddCmd_def Let_def
        argsLoop.simps argsBody_def skipOptional.simps getArgDef_def fillString_def
        maybeWrapStdin_def isTty_def exStdin_def exEnv_def
        argsInit_def finishArgs_def peerArg_def EncLong_def)
  from Parse_drops_stdin [OF p f c, where e = exEnv and stdin = "Some exStdin"
      and f = "NewReaderPathFile exEnv"] n w
  show ?thesis
    by simp
qed

subsection \<open>The default encoding\<close>

text \<open>
  C10. After a successful parse, an encoding option that holds the empty string is set
  (by \<^verbatim>\<open>SetOption\<close>, with the plain string of the constant) to the text encoding when the
  resolved command has a text encoder and to JSON otherwise; an encoding option that is
  absent is left absent.
\<close>

theorem Parse_encoding_default:
  assumes "parse l emptyRequest input root = Inr req1"
    and "FillDefaults l req1 = (req2, None)"
    and "parseArgs e req2 root (if dropsStdin req2 then None else stdin) = Some (Inr req3)"
    and "req_Command req3 = Some c"
  shows "Parse l e input stdin root =
           Some (Some (if req_Options req3 EncLong = Some (StringVal [])
                       then SetOption l req3 EncLong
                              (StringVal (if Text \<in> set (cmd_Encoders c) then Text else JSON))
                       else req3), None) \<and>
         (req_Options req3 EncLong = None \<longrightarrow>
            Parse l e input stdin root = Some (Some req3, None))"
  using assms
  by (simp add: Parse_def Let_def)

theorem Parse_encoding_default_witness:
  "Parse exLib exEnv [''bootstrap'', ''add'', ''--enc=''] None exRoot =
     Some (Some \<lparr>req_Root = Some exRoot, req_Command = Some bootstrapAddCmd,
                 req_Path = [''bootstrap'', ''add''], req_Arguments = [],
                 req_Options = [''encoding'' \<mapsto> StringVal ''text''], req_Files = None\<rparr>, None) \<and>
   Parse exLib exEnv [''--enc=''] None exRoot =
     Some (Some \<lparr>req_Root = Some exRoot, req_Command = Some exRoot,
                 req_Path = [], req_Arguments = [],
                 req_Options = [''encoding'' \<mapsto> StringVal ''json''], req_Files = None\<rparr>, None)"
proof -
  let ?req = "\<lparr>req_Root = Some exRoot, req_Command = Some bootstrapAddCmd,
                 req_Path = [''bootstrap'', ''add''], req_Arguments = [],
                 req_Options = [''encoding'' \<mapsto> StringVal []], req_Files = None\<rparr>"
  let ?req' = "\<lparr>req_Root = Some exRoot, req_Command = Some exRoot,
                 req_Path = [], req_Arguments = [],
                 req_Options = [''encoding'' \<mapsto> StringVal []], req_Files = None\<rparr>"
  have p: "parse exLib emptyRequest [''bootstrap'', ''add'', ''--enc=''] exRoot = Inr ?req"
    by (simp add: parse_def parseInit_def emptyRequest_def exLib_def exRoot_def bootstrapCmd_def
        bootstrapAddCmd_def exOptDefs_def encOption_def parseOpt_def Let_def
        parseLoop.simps parseStep_def done_st_def peek_def parseLongOpt_def splitkv_def)
  have f: "FillDefaults exLib ?req = (?req, None)"
    by (simp add: exLib_def)
  have a: "parseArgs exEnv ?req exRoot (if dropsStdin ?req then None else None) = Some (Inr ?req)"
    by (simp add: parseArgs_def bootstrapAddCmd_def Let_def
        argsLoop.simps argsInit_def finishArgs_def peerArg_def)
  have c: "req_Command ?req = Some bootstrapAddCmd"
    by simp
  have p': "parse exLib emptyRequest [''--enc=''] exRoot = Inr ?req'"
    by (simp add: parse_def parseInit_def emptyRequest_def exLib_def
        exOptDefs_def encOption_def parseOpt_def Let_def
        parseLoop.simps parseStep_def done_st_def peek_def parseLongOpt_def splitkv_def)
  have f': "FillDefaults exLib ?req' = (?req', None)"
    by (simp add: exLib_def)
  have a': "parseArgs exEnv ?req' exRoot (if dropsStdin ?req' then None else None) = Some (Inr ?req')"
    by (simp add: parseArgs_def exRoot_def Let_def argsLoop.simps argsInit_def finishArgs_def)
  have c': "req_Command ?req' = Some exRoot"
    by simp
  have t: "Text \<in> set (cmd_Encoders bootstrapAddCmd)" "Text \<notin> set (cmd_Encoders exRoot)"
    by (simp_all add: bootstrapAddCmd_def exRoot_def)
  from Parse_encoding_default [OF p f a c] Parse_encoding_default [OF p' f' a' c'] t
  show ?thesis
    by (simp add: EncLong_def exLib_simps Text_def JSON_def)
qed

end
